theory Spec2Isabelle
  imports Main "HOL-Library.Sublist"
begin

section \<open>Python strings\<close>

text \<open>
  Strings are character lists. \<open>str_replace old new s\<close> is Python's
  \<^verbatim>\<open>s.replace(old, new)\<close>: the text is scanned from the left, every occurrence of
  \<open>old\<close> that does not overlap an earlier one is replaced by \<open>new\<close>, and the scan
  resumes behind the occurrence. For the empty pattern Python inserts \<open>new\<close> in
  front of every character and at the end.
\<close>

function str_replace :: "string \<Rightarrow> string \<Rightarrow> string \<Rightarrow> string" where
  "str_replace old new s =
     (if old = [] then new @ concat (map (\<lambda>c. c # new) s)
      else if prefix old s then new @ str_replace old new (drop (length old) s)
      else (case s of [] \<Rightarrow> [] | c # cs \<Rightarrow> c # str_replace old new cs))"
  by pat_completeness auto
termination
  by (relation "measure (\<lambda>(old, new, s). length s)") (auto simp: prefix_def)

declare str_replace.simps [simp del]

text \<open>
  \<open>str_replace_n count old new s\<close> is \<^verbatim>\<open>s.replace(old, new, count)\<close> for a count
  that is not negative: only the first \<open>count\<close> occurrences are replaced.
\<close>

fun interleave_n :: "nat \<Rightarrow> string \<Rightarrow> string \<Rightarrow> string" where
  "interleave_n 0 new s = s"
| "interleave_n (Suc n) new [] = new"
| "interleave_n (Suc n) new (c # cs) = new @ c # interleave_n n new cs"

function str_replace_n :: "nat \<Rightarrow> string \<Rightarrow> string \<Rightarrow> string \<Rightarrow> string" where
  "str_replace_n count old new s =
     (if count = 0 then s
      else if old = [] then interleave_n count new s
      else if prefix old s then new @ str_replace_n (count - 1) old new (drop (length old) s)
      else (case s of [] \<Rightarrow> [] | c # cs \<Rightarrow> c # str_replace_n count old new cs))"
  by pat_completeness auto
termination
  by (relation "measure (\<lambda>(count, old, new, s). length s)") (auto simp: prefix_def)

declare str_replace_n.simps [simp del]

text \<open>
  \<^verbatim>\<open>str.strip()\<close> removes white space at both ends and \<^verbatim>\<open>str.lower()\<close> maps
  capital letters to small ones. Both are modelled on ASCII, one \<open>char\<close> per character.
\<close>

definition is_space :: "char \<Rightarrow> bool" where
  "is_space c \<longleftrightarrow> c \<in> {CHR 0x20, CHR 0x09, CHR 0x0A, CHR 0x0B, CHR 0x0C, CHR 0x0D,
                        CHR 0x1C, CHR 0x1D, CHR 0x1E, CHR 0x1F}"

definition strip :: "string \<Rightarrow> string" where
  "strip s = rev (dropWhile is_space (rev (dropWhile is_space s)))"

definition lower_char :: "char \<Rightarrow> char" where
  "lower_char c =
     (let n = (of_char c :: nat) in if 65 \<le> n \<and> n \<le> 90 then char_of (n + 32) else c)"

definition lower :: "string \<Rightarrow> string" where
  "lower s = map lower_char s"

definition nl :: string where
  "nl = [CHR 0x0A]"

section \<open>The catalog and the target list\<close>

record var_info =
  default_value :: string
  description :: string

definition TEMPLATE_VARS :: "(string \<times> var_info) list" where
  "TEMPLATE_VARS =
    [(''PROJECT_NAME'',
        \<lparr>default_value = ''my-python-project'',
         description = ''Project name (used for repository and package)''\<rparr>),
     (''PROJECT_DESCRIPTION'',
        \<lparr>default_value = ''A Python project'',
         description = ''Short project description (one line)''\<rparr>),
     (''GITHUB_OWNER'',
        \<lparr>default_value = ''your-username'',
         description = ''GitHub username or organization''\<rparr>),
     (''MIN_PYTHON_VERSION'',
        \<lparr>default_value = ''3.10'',
         description = ''Minimum Python version supported''\<rparr>),
     (''PYTHON_VERSIONS'',
        \<lparr>default_value = ''3.10, 3.11, 3.12'',
         description = ''Python versions for CI matrix (comma-separated)''\<rparr>),
     (''MAX_LINE_LENGTH'',
        \<lparr>default_value = ''127'',
         description = ''Maximum line length for code''\<rparr>),
     (''MAX_COMPLEXITY'',
        \<lparr>default_value = ''10'',
         description = ''Maximum cyclomatic complexity''\<rparr>),
     (''COVERAGE_THRESHOLD'',
        \<lparr>default_value = ''95'',
         description = ''Minimum test coverage percentage''\<rparr>),
     (''SOURCE_DIR'',
        \<lparr>default_value = ''src'',
         description = ''Source code directory name''\<rparr>),
     (''TEST_DIR'',
        \<lparr>default_value = ''tests'',
         description = ''Test directory name''\<rparr>),
     (''MAIN_BRANCH'',
        \<lparr>default_value = ''main'',
         description = ''Main branch name''\<rparr>),
     (''DEV_BRANCH'',
        \<lparr>default_value = ''develop'',
         description = ''Development branch name''\<rparr>)]"

definition FILES_TO_PROCESS :: "string list" where
  "FILES_TO_PROCESS =
    [''.github/workflows/ci.yml'',
     ''.github/workflows/claude.yml'',
     ''.github/workflows/claude-code-review.yml'',
     ''.github/dependabot.yml'',
     ''.pre-commit-config.yaml'',
     ''pyproject.toml'',
     ''.flake8'',
     ''.pylintrc'',
     ''CLAUDE.md'',
     ''README.md'',
     ''docs/INDEX.md'',
     ''docs/CI.md'',
     ''docs/SETUP.md'',
     ''docs/ARCHITECTURE.md'',
     ''docs/planning/TASK_MANAGEMENT.md'',
     ''config/config.example.yaml'',
     ''src/__init__.py'',
     ''src/main.py'',
     ''tests/__init__.py'',
     ''tests/conftest.py'',
     ''tests/test_main.py'']"

section \<open>The file system, the console and Python's exceptions\<close>

text \<open>
  A path is the list of its components, from the root of the file system. The
  file system is a table from paths to nodes. A regular file holds text as
  \<^verbatim>\<open>read_text(encoding="utf-8")\<close> returns it, or bytes that do not decode, with one
  flag for the permission to read and one for the permission to write. The text
  is stored with LF line ends, as on POSIX: \<^verbatim>\<open>read_text\<close> reads CRLF and CR as
  LF, which changes nothing in a text without carriage returns, and
  \<^verbatim>\<open>write_text\<close> writes LF as it is; the translation of carriage returns is
  not modelled.
  A path is looked up by its components as they are written: symbolic links are
  not followed and the component \<^verbatim>\<open>..\<close> is not resolved.
\<close>

type_synonym path = "string list"

datatype fcontent = Text string | Undecodable

datatype node = Dir | File fcontent bool bool

datatype py_error =
    EOFError
  | KeyError string
  | FileNotFoundError
  | IsADirectoryError
  | NotADirectoryError
  | PermissionError
  | UnicodeDecodeError
  | ShutilError
  | CalledProcessError nat
  | OSError

datatype out =
    Print string
  | Prompt string
  | Print_could_not_process path py_error
  | Print_modified nat

record world =
  files :: "(path \<times> node) list"
  stdin :: "string list"
  stdout :: "out list"
  writes :: "path list"

definition py_print :: "string \<Rightarrow> world \<Rightarrow> world" where
  "py_print s w = w\<lparr>stdout := stdout w @ [Print s]\<rparr>"

definition lookup :: "world \<Rightarrow> path \<Rightarrow> node option" where
  "lookup w p = map_of (files w) p"

definition path_exists :: "world \<Rightarrow> path \<Rightarrow> bool" where
  "path_exists w p \<longleftrightarrow> lookup w p \<noteq> None"

definition is_dir :: "world \<Rightarrow> path \<Rightarrow> bool" where
  "is_dir w p \<longleftrightarrow> lookup w p = Some Dir"

definition is_file :: "world \<Rightarrow> path \<Rightarrow> bool" where
  "is_file w p \<longleftrightarrow> (case lookup w p of Some (File c r x) \<Rightarrow> True | _ \<Rightarrow> False)"

text \<open>
  \<open>joinpath base name\<close> is pathlib's \<^verbatim>\<open>base / name\<close>: the string is cut at the
  separators, empty components and \<^verbatim>\<open>.\<close> are dropped, and a string that starts with
  the separator replaces the base.
\<close>

fun split_on :: "char \<Rightarrow> string \<Rightarrow> string list" where
  "split_on sep [] = [[]]"
| "split_on sep (c # cs) =
     (if c = sep then [] # split_on sep cs
      else (case split_on sep cs of [] \<Rightarrow> [[c]] | x # xs \<Rightarrow> (c # x) # xs))"

definition parts :: "string \<Rightarrow> path" where
  "parts name = filter (\<lambda>x. x \<noteq> [] \<and> x \<noteq> ''.'') (split_on CHR ''/'' name)"

definition joinpath :: "path \<Rightarrow> string \<Rightarrow> path" where
  "joinpath base name = (if prefix ''/'' name then parts name else base @ parts name)"

definition name_of :: "path \<Rightarrow> string" where
  "name_of p = (if p = [] then [] else last p)"

fun set_node :: "path \<Rightarrow> node \<Rightarrow> (path \<times> node) list \<Rightarrow> (path \<times> node) list" where
  "set_node p n [] = [(p, n)]"
| "set_node p n ((q, m) # fs) = (if q = p then (p, n) # fs else (q, m) # set_node p n fs)"

definition read_text :: "world \<Rightarrow> path \<Rightarrow> py_error + string" where
  "read_text w p =
     (case lookup w p of
        None \<Rightarrow> Inl FileNotFoundError
      | Some Dir \<Rightarrow> Inl IsADirectoryError
      | Some (File c r x) \<Rightarrow>
          if \<not> r then Inl PermissionError
          else (case c of Undecodable \<Rightarrow> Inl UnicodeDecodeError | Text s \<Rightarrow> Inr s))"

definition write_text :: "path \<Rightarrow> string \<Rightarrow> world \<Rightarrow> py_error + world" where
  "write_text p s w =
     (case lookup w p of
        None \<Rightarrow>
          if is_dir w (butlast p)
          then Inr (w\<lparr>files := set_node p (File (Text s) True True) (files w),
                      writes := writes w @ [p]\<rparr>)
          else Inl FileNotFoundError
      | Some Dir \<Rightarrow> Inl IsADirectoryError
      | Some (File c r x) \<Rightarrow>
          if \<not> x then Inl PermissionError
          else Inr (w\<lparr>files := set_node p (File (Text s) r x) (files w),
                      writes := writes w @ [p]\<rparr>))"

definition unlink :: "path \<Rightarrow> world \<Rightarrow> py_error + world" where
  "unlink p w =
     (case lookup w p of
        None \<Rightarrow> Inl FileNotFoundError
      | Some Dir \<Rightarrow> Inl IsADirectoryError
      | Some (File c r x) \<Rightarrow> Inr (w\<lparr>files := filter (\<lambda>(q, n). q \<noteq> p) (files w)\<rparr>))"

text \<open>
  \<^verbatim>\<open>input(prompt)\<close> writes the prompt and takes the next line of the input, without
  its line end; at the end of the input it raises \<^verbatim>\<open>EOFError\<close>.
\<close>

definition input :: "string \<Rightarrow> world \<Rightarrow> py_error + (string \<times> world)" where
  "input prompt w =
     (case stdin w of
        [] \<Rightarrow> Inl EOFError
      | l # ls \<Rightarrow> Inr (l, w\<lparr>stdin := ls, stdout := stdout w @ [Prompt prompt]\<rparr>))"

section \<open>Prompt collector\<close>

definition get_input :: "string \<Rightarrow> string \<Rightarrow> world \<Rightarrow> py_error + (string \<times> world)" where
  "get_input prompt default' w =
     (case input (prompt @ '' ['' @ default' @ '']: '') w of
        Inl e \<Rightarrow> Inl e
      | Inr (l, w') \<Rightarrow>
          (let result = strip l in Inr (if result \<noteq> [] then result else default', w')))"

text \<open>
  A dict is an association list in insertion order: assigning to a key that is
  present keeps its place, a new key goes to the end.
\<close>

fun dict_set :: "(string \<times> string) list \<Rightarrow> string \<Rightarrow> string \<Rightarrow> (string \<times> string) list" where
  "dict_set [] k v = [(k, v)]"
| "dict_set ((k', v') # d) k v = (if k' = k then (k, v) # d else (k', v') # dict_set d k v)"

definition dict_get :: "(string \<times> string) list \<Rightarrow> string \<Rightarrow> py_error + string" where
  "dict_get d k = (case map_of d k of None \<Rightarrow> Inl (KeyError k) | Some v \<Rightarrow> Inr v)"

fun collect_loop ::
  "(string \<times> var_info) list \<Rightarrow> (string \<times> string) list \<Rightarrow> world \<Rightarrow>
   py_error + ((string \<times> string) list \<times> world)" where
  "collect_loop [] values w = Inr (values, w)"
| "collect_loop ((var_name, info) # rest) values w =
     (case get_input (''  '' @ var_name) (default_value info)
             (py_print (nl @ description info) w) of
        Inl e \<Rightarrow> Inl e
      | Inr (v, w') \<Rightarrow> collect_loop rest (dict_set values var_name v) w')"

definition collect_variables :: "world \<Rightarrow> py_error + ((string \<times> string) list \<times> world)" where
  "collect_variables w =
     collect_loop TEMPLATE_VARS []
       (py_print (''Press Enter to accept the default value shown in brackets.'' @ nl)
       (py_print (nl @ ''Please provide values for the following settings.'')
       (py_print (replicate 60 CHR ''='')
       (py_print ''Python Project Template Setup''
       (py_print (nl @ replicate 60 CHR ''='') w)))))"

section \<open>Substitution engine\<close>

definition token :: "string \<Rightarrow> string" where
  "token var_name = ''{{'' @ var_name @ ''}}''"

fun substitute :: "(string \<times> string) list \<Rightarrow> string \<Rightarrow> string" where
  "substitute [] content = content"
| "substitute ((var_name, v) # rest) content =
     substitute rest (str_replace (token var_name) v content)"

definition replace_in_file :: "path \<Rightarrow> (string \<times> string) list \<Rightarrow> world \<Rightarrow> bool \<times> world" where
  "replace_in_file file_path replacements w =
     (case read_text w file_path of
        Inl e \<Rightarrow> (False, w\<lparr>stdout := stdout w @ [Print_could_not_process file_path e]\<rparr>)
      | Inr original_content \<Rightarrow>
          (let content = substitute replacements original_content in
           if content \<noteq> original_content then
             (case write_text file_path content w of
                Inl e \<Rightarrow>
                  (False, w\<lparr>stdout := stdout w @ [Print_could_not_process file_path e]\<rparr>)
              | Inr w' \<Rightarrow> (True, w'))
           else (False, w)))"

section \<open>Directory renamer\<close>

text \<open>
  \<^verbatim>\<open>shutil.move(src, dst)\<close>, for a destination that does not exist (the only call,
  in \<open>rename_directory\<close>, comes after that test; for a destination that exists the
  model gives \<open>OSError\<close> without looking further). It first tries \<^verbatim>\<open>os.rename\<close>,
  which needs the parent directory of the destination and refuses a destination
  inside the source. When that fails, a directory is copied with \<^verbatim>\<open>copytree\<close>
  and removed, unless the destination lies inside it: then \<^verbatim>\<open>shutil.Error\<close> is
  raised. \<^verbatim>\<open>copytree\<close> creates the missing directories above the destination
  (\<^verbatim>\<open>os.makedirs\<close>, which fails where a regular file stands in the way) and
  raises \<^verbatim>\<open>shutil.Error\<close> when a file of the source cannot be read. A regular
  file is copied with \<^verbatim>\<open>copy2\<close>, which needs the parent directory.
\<close>

definition rekey :: "path \<Rightarrow> path \<Rightarrow> path \<Rightarrow> path" where
  "rekey src dst p = (if prefix src p then dst @ drop (length src) p else p)"

definition move_tree :: "path \<Rightarrow> path \<Rightarrow> (path \<times> node) list \<Rightarrow> (path \<times> node) list" where
  "move_tree src dst fs = map (\<lambda>(p, n). (rekey src dst p, n)) fs"

definition ancestors :: "path \<Rightarrow> path list" where
  "ancestors p = map (\<lambda>k. take k p) [0..<length p]"

definition unreadable_below :: "world \<Rightarrow> path \<Rightarrow> bool" where
  "unreadable_below w src \<longleftrightarrow>
     (\<exists>(p, n) \<in> set (files w).
        prefix src p \<and> (case n of File c r x \<Rightarrow> \<not> r | Dir \<Rightarrow> False))"

definition shutil_move :: "path \<Rightarrow> path \<Rightarrow> world \<Rightarrow> py_error + world" where
  "shutil_move src dst w =
     (if path_exists w dst then Inl OSError
      else if \<not> path_exists w src then Inl FileNotFoundError
      else if is_dir w (butlast dst) \<and> \<not> prefix src dst
        then Inr (w\<lparr>files := move_tree src dst (files w)\<rparr>)
      else if is_dir w src then
        (if prefix src dst then Inl ShutilError
         else if \<exists>q \<in> set (ancestors dst). is_file w q then Inl NotADirectoryError
         else if unreadable_below w src then Inl ShutilError
         else Inr (w\<lparr>files := move_tree src dst
                     (files w @ map (\<lambda>q. (q, Dir))
                        (filter (\<lambda>q. \<not> path_exists w q) (ancestors dst)))\<rparr>))
      else if \<exists>q \<in> set (ancestors dst). is_file w q then Inl NotADirectoryError
      else Inl FileNotFoundError)"

definition rename_directory ::
  "path \<Rightarrow> string \<Rightarrow> string \<Rightarrow> world \<Rightarrow> py_error + (path option \<times> world)" where
  "rename_directory project_root old_name new_name w =
     (if old_name = new_name then Inr (None, w)
      else
        (let old_path = joinpath project_root old_name;
             new_path = joinpath project_root new_name
         in if path_exists w old_path then
              (if path_exists w new_path then
                 Inr (None, py_print (''  Warning: Cannot rename '' @ old_name @ '' to ''
                                        @ new_name @ '': target exists'') w)
               else
                 (case shutil_move old_path new_path w of
                    Inl e \<Rightarrow> Inl e
                  | Inr w' \<Rightarrow> Inr (Some new_path, w')))
            else Inr (None, w)))"

subsection \<open>Reference fixer\<close>

definition patterns :: "string \<Rightarrow> string \<Rightarrow> (string \<times> string) list" where
  "patterns old_name new_name =
     [(old_name @ ''/'', new_name @ ''/''),
      (''^'' @ old_name @ ''/'', new_name @ ''/''),
      ([CHR 0x22] @ old_name @ [CHR 0x22], [CHR 0x22] @ new_name @ [CHR 0x22]),
      ([CHR 0x27] @ old_name @ [CHR 0x27], [CHR 0x27] @ new_name @ [CHR 0x27])]"

fun apply_patterns :: "(string \<times> string) list \<Rightarrow> string \<Rightarrow> bool \<Rightarrow> string \<times> bool" where
  "apply_patterns [] content modified = (content, modified)"
| "apply_patterns ((old_pattern, new_pattern) # ps) content modified =
     (if sublist old_pattern content
      then apply_patterns ps (str_replace old_pattern new_pattern content) True
      else apply_patterns ps content modified)"

definition passed :: "py_error \<Rightarrow> bool" where
  "passed e \<longleftrightarrow> e = UnicodeDecodeError \<or> e = PermissionError"

definition update_file :: "(string \<times> string) list \<Rightarrow> path \<Rightarrow> world \<Rightarrow> py_error + world" where
  "update_file ps file_path w =
     (if is_file w file_path \<and> \<not> prefix ''.'' (name_of file_path) then
        (case read_text w file_path of
           Inl e \<Rightarrow> if passed e then Inr w else Inl e
         | Inr content \<Rightarrow>
             (case apply_patterns ps content False of
                (content', modified) \<Rightarrow>
                  if modified then
                    (case write_text file_path content' w of
                       Inl e \<Rightarrow> if passed e then Inr w else Inl e
                     | Inr w' \<Rightarrow> Inr w')
                  else Inr w))
      else Inr w)"

fun update_loop :: "(string \<times> string) list \<Rightarrow> path list \<Rightarrow> world \<Rightarrow> py_error + world" where
  "update_loop ps [] w = Inr w"
| "update_loop ps (file_path # rest) w =
     (case update_file ps file_path w of
        Inl e \<Rightarrow> Inl e
      | Inr w' \<Rightarrow> update_loop ps rest w')"

text \<open>
  \<^verbatim>\<open>project_root.rglob("*")\<close> yields every path below the root, hidden ones too,
  here in the order of the table.
\<close>

definition rglob :: "path \<Rightarrow> world \<Rightarrow> path list" where
  "rglob project_root w = filter (strict_prefix project_root) (map fst (files w))"

definition update_file_references ::
  "path \<Rightarrow> string \<Rightarrow> string \<Rightarrow> world \<Rightarrow> py_error + world" where
  "update_file_references project_root old_name new_name w =
     (if old_name = new_name then Inr w
      else update_loop (patterns old_name new_name) (rglob project_root w) w)"

section \<open>Repository and hook initialiser\<close>

text \<open>
  The two external tools are parameters of the model. A tool is given the working
  directory and the file table; it returns the table it leaves and either its
  exit status or the exception \<^verbatim>\<open>subprocess.run\<close> raises when the command cannot
  be started (\<^verbatim>\<open>FileNotFoundError\<close> when it is not installed).
  With \<^verbatim>\<open>check=True\<close> a status other than 0 raises \<^verbatim>\<open>CalledProcessError\<close>.
\<close>

datatype proc_result = Exited nat | Not_started py_error

type_synonym tool = "path \<Rightarrow> (path \<times> node) list \<Rightarrow> proc_result \<times> (path \<times> node) list"

record env =
  script_file :: path
  git_init :: tool
  pre_commit_install :: tool

definition subprocess_run :: "tool \<Rightarrow> path \<Rightarrow> world \<Rightarrow> py_error option \<times> world" where
  "subprocess_run cmd cwd w =
     (case cmd cwd (files w) of
        (Exited rc, fs) \<Rightarrow>
          (if rc = 0 then None else Some (CalledProcessError rc), w\<lparr>files := fs\<rparr>)
      | (Not_started e, fs) \<Rightarrow> (Some e, w\<lparr>files := fs\<rparr>))"

definition tool_failed :: "py_error \<Rightarrow> bool" where
  "tool_failed e =
     (case e of CalledProcessError rc \<Rightarrow> True | FileNotFoundError \<Rightarrow> True | _ \<Rightarrow> False)"

definition init_git_repo :: "env \<Rightarrow> path \<Rightarrow> world \<Rightarrow> py_error + (bool \<times> world)" where
  "init_git_repo env project_root w =
     (case subprocess_run (git_init env) project_root w of
        (None, w') \<Rightarrow> Inr (True, w')
      | (Some e, w') \<Rightarrow> if tool_failed e then Inr (False, w') else Inl e)"

definition install_pre_commit :: "env \<Rightarrow> path \<Rightarrow> world \<Rightarrow> py_error + (bool \<times> world)" where
  "install_pre_commit env project_root w =
     (case subprocess_run (pre_commit_install env) project_root w of
        (None, w') \<Rightarrow> Inr (True, w')
      | (Some e, w') \<Rightarrow> if tool_failed e then Inr (False, w') else Inl e)"

section \<open>Orchestrator\<close>

text \<open>One turn of the loop over \<open>FILES_TO_PROCESS\<close>, with the counter of modified files.\<close>

definition process_file ::
  "path \<Rightarrow> (string \<times> string) list \<Rightarrow> string \<Rightarrow> nat \<times> world \<Rightarrow> py_error + (nat \<times> world)" where
  "process_file project_root values file_rel_path st =
     (case st of (modified_count, w) \<Rightarrow>
        if path_exists w (joinpath project_root file_rel_path) then
          (case replace_in_file (joinpath project_root file_rel_path) values w of
             (True, w') \<Rightarrow> Inr (modified_count + 1, py_print (''  Updated: '' @ file_rel_path) w')
           | (False, w') \<Rightarrow> Inr (modified_count, w'))
        else
          (case (if prefix ''src/'' file_rel_path then
                   (case dict_get values ''SOURCE_DIR'' of
                      Inl e \<Rightarrow> Inl e
                    | Inr v \<Rightarrow> Inr (str_replace_n 1 ''src/'' (v @ ''/'') file_rel_path))
                 else if prefix ''tests/'' file_rel_path then
                   (case dict_get values ''TEST_DIR'' of
                      Inl e \<Rightarrow> Inl e
                    | Inr v \<Rightarrow> Inr (str_replace_n 1 ''tests/'' (v @ ''/'') file_rel_path))
                 else Inr file_rel_path) of
             Inl e \<Rightarrow> Inl e
           | Inr new_path \<Rightarrow>
               if path_exists w (joinpath project_root new_path) then
                 (case replace_in_file (joinpath project_root new_path) values w of
                    (True, w') \<Rightarrow> Inr (modified_count + 1, py_print (''  Updated: '' @ new_path) w')
                  | (False, w') \<Rightarrow> Inr (modified_count, w'))
               else Inr (modified_count, w)))"

fun process_files ::
  "path \<Rightarrow> (string \<times> string) list \<Rightarrow> string list \<Rightarrow> nat \<times> world \<Rightarrow> py_error + (nat \<times> world)" where
  "process_files project_root values [] st = Inr st"
| "process_files project_root values (file_rel_path # rest) st =
     (case process_file project_root values file_rel_path st of
        Inl e \<Rightarrow> Inl e
      | Inr st' \<Rightarrow> process_files project_root values rest st')"

text \<open>The two blocks that rename a directory and fix the references to it.\<close>

definition rename_step ::
  "path \<Rightarrow> (string \<times> string) list \<Rightarrow> string \<Rightarrow> string \<Rightarrow> world \<Rightarrow> py_error + world" where
  "rename_step project_root values key old_name w =
     (case dict_get values key of
        Inl e \<Rightarrow> Inl e
      | Inr new_name \<Rightarrow>
          if new_name \<noteq> old_name then
            (case rename_directory project_root old_name new_name w of
               Inl e \<Rightarrow> Inl e
             | Inr (None, w') \<Rightarrow> Inr w'
             | Inr (Some new_path, w') \<Rightarrow>
                 update_file_references project_root old_name new_name
                   (py_print (''  Renamed: '' @ old_name @ '' -> '' @ new_name) w'))
          else Inr w)"

definition affirmative :: "string \<Rightarrow> bool" where
  "affirmative answer \<longleftrightarrow> lower answer = ''yes'' \<or> lower answer = ''y''"

definition git_step :: "env \<Rightarrow> path \<Rightarrow> world \<Rightarrow> py_error + world" where
  "git_step env project_root w =
     (case get_input ''Initialize git repository?'' ''yes''
             (py_print (nl @ replicate 60 CHR ''-'') w) of
        Inl e \<Rightarrow> Inl e
      | Inr (init_git, w') \<Rightarrow>
          if affirmative init_git then
            (case init_git_repo env project_root w' of
               Inl e \<Rightarrow> Inl e
             | Inr (True, w'') \<Rightarrow> Inr (py_print ''  Initialized git repository'' w'')
             | Inr (False, w'') \<Rightarrow>
                 Inr (py_print ''  Warning: Could not initialize git repository'' w''))
          else Inr w')"

definition hooks_step :: "env \<Rightarrow> path \<Rightarrow> world \<Rightarrow> py_error + world" where
  "hooks_step env project_root w =
     (case get_input ''Install pre-commit hooks?'' ''yes'' w of
        Inl e \<Rightarrow> Inl e
      | Inr (install_hooks, w') \<Rightarrow>
          if affirmative install_hooks then
            (case install_pre_commit env project_root w' of
               Inl e \<Rightarrow> Inl e
             | Inr (True, w'') \<Rightarrow> Inr (py_print ''  Installed pre-commit hooks'' w'')
             | Inr (False, w'') \<Rightarrow>
                 Inr (py_print
                        (''  Run '' @ [CHR 0x27] @ ''pip install pre-commit && pre-commit install''
                           @ [CHR 0x27] @ '' manually'')
                     (py_print ''  Warning: Could not install pre-commit hooks'' w'')))
          else Inr w')"

definition remove_step :: "env \<Rightarrow> world \<Rightarrow> py_error + world" where
  "remove_step env w =
     (case get_input ''Remove this setup script?'' ''yes''
             (py_print (nl @ replicate 60 CHR ''-'') w) of
        Inl e \<Rightarrow> Inl e
      | Inr (remove_script, w') \<Rightarrow>
          if affirmative remove_script then
            (case unlink (script_file env) w' of
               Inl e \<Rightarrow> Inl e
             | Inr w'' \<Rightarrow> Inr (py_print ''  Removed setup_template.py'' w''))
          else Inr w')"

definition summary :: "string \<Rightarrow> world \<Rightarrow> world" where
  "summary project_name w =
     py_print []
     (py_print ''  4. Start coding!''
     (py_print ''  3. Run tests: pytest''
     (py_print ''  2. Install dependencies: pip install -r requirements-dev.txt''
     (py_print ''  1. Review the generated files''
     (py_print (nl @ ''Next steps:'')
     (py_print (nl @ ''Your project '' @ [CHR 0x27] @ project_name @ [CHR 0x27] @ '' is ready.'')
     (py_print (replicate 60 CHR ''='')
     (py_print ''Setup complete!''
     (py_print (nl @ replicate 60 CHR ''='') w)))))))))"

definition main :: "env \<Rightarrow> world \<Rightarrow> py_error + (int \<times> world)" where
  "main env w0 =
     (let project_root = butlast (script_file env) in
      case collect_variables w0 of
        Inl e \<Rightarrow> Inl e
      | Inr (values, w1) \<Rightarrow>
      (case process_files project_root values FILES_TO_PROCESS
              (0, py_print (replicate 60 CHR ''='')
                    (py_print ''Applying configuration...''
                    (py_print (nl @ replicate 60 CHR ''='') w1))) of
        Inl e \<Rightarrow> Inl e
      | Inr (modified_count, w2) \<Rightarrow>
      (case rename_step project_root values ''SOURCE_DIR'' ''src''
              (w2\<lparr>stdout := stdout w2 @ [Print_modified modified_count]\<rparr>) of
        Inl e \<Rightarrow> Inl e
      | Inr w3 \<Rightarrow>
      (case rename_step project_root values ''TEST_DIR'' ''tests'' w3 of
        Inl e \<Rightarrow> Inl e
      | Inr w4 \<Rightarrow>
      (case git_step env project_root w4 of
        Inl e \<Rightarrow> Inl e
      | Inr w5 \<Rightarrow>
      (case hooks_step env project_root w5 of
        Inl e \<Rightarrow> Inl e
      | Inr w6 \<Rightarrow>
      (case remove_step env w6 of
        Inl e \<Rightarrow> Inl e
      | Inr w7 \<Rightarrow>
      (case dict_get values ''PROJECT_NAME'' of
        Inl e \<Rightarrow> Inl e
      | Inr project_name \<Rightarrow> Inr (0, summary project_name w7)))))))))"

section \<open>Notions of the specification\<close>

subsection \<open>Tokens and the text outside them\<close>

text \<open>
  The specification speaks of the tokens of a text and of the content outside
  them. \<open>tokenise cfg s\<close> reads \<open>s\<close> from the left and cuts it into the tokens of
  the configuration's variables (the first variable of the configuration whose
  token starts at the position) and the single characters between them.
  \<open>render\<close> writes the segments back as they were found, \<open>expand\<close> writes each
  token as the value of its variable and leaves every other character alone.
\<close>

datatype segment = Lit char | Tok string string

fun match_token :: "(string \<times> string) list \<Rightarrow> string \<Rightarrow> (string \<times> string) option" where
  "match_token [] s = None"
| "match_token ((var_name, v) # rest) s =
     (if prefix (token var_name) s then Some (var_name, v) else match_token rest s)"

function tokenise :: "(string \<times> string) list \<Rightarrow> string \<Rightarrow> segment list" where
  "tokenise cfg s =
     (case s of
        [] \<Rightarrow> []
      | c # cs \<Rightarrow>
          (case match_token cfg s of
             Some (var_name, v) \<Rightarrow> Tok var_name v # tokenise cfg (drop (length (token var_name)) s)
           | None \<Rightarrow> Lit c # tokenise cfg cs))"
  by pat_completeness auto

termination
  by (relation "measure (\<lambda>(cfg, s). length s)") (auto simp: token_def)

declare tokenise.simps [simp del]

fun render :: "segment list \<Rightarrow> string" where
  "render [] = []"
| "render (Lit c # segs) = c # render segs"
| "render (Tok var_name v # segs) = token var_name @ render segs"

fun expand :: "segment list \<Rightarrow> string" where
  "expand [] = []"
| "expand (Lit c # segs) = c # expand segs"
| "expand (Tok var_name v # segs) = v @ expand segs"

text \<open>
  A configuration is well behaved when no variable name and no value holds a
  brace and no value occurs inside the token of a variable (so no value is empty).
\<close>

definition brace_free :: "string \<Rightarrow> bool" where
  "brace_free s \<longleftrightarrow> CHR ''{'' \<notin> set s \<and> CHR ''}'' \<notin> set s"

definition well_behaved :: "(string \<times> string) list \<Rightarrow> bool" where
  "well_behaved cfg \<longleftrightarrow>
     (\<forall>(n, v) \<in> set cfg. brace_free n \<and> brace_free v \<and>
        (\<forall>(m, u) \<in> set cfg. \<not> sublist v (token m)))"

definition catalog_defaults :: "(string \<times> string) list" where
  "catalog_defaults = map (\<lambda>(var_name, info). (var_name, default_value info)) TEMPLATE_VARS"

subsection \<open>Example inputs\<close>

definition example_values :: "(string \<times> string) list" where
  "example_values = [(''PROJECT_NAME'', ''demo''), (''GITHUB_OWNER'', ''{{PROJECT_NAME}}'')]"

definition example_world :: world where
  "example_world =
     \<lparr>files = [([], Dir), ([''proj''], Dir),
               ([''proj'', ''README.md''], File (Text ''by {{GITHUB_OWNER}}'') True True)],
      stdin = [], stdout = [], writes = []\<rparr>"

definition readme_world :: world where
  "readme_world =
     \<lparr>files = [([], Dir), ([''proj''], Dir),
               ([''proj'', ''README.md''],
                  File (Text ''# {{PROJECT_NAME}} ({{GITHUB_OWNER}})'') True True)],
      stdin = [], stdout = [], writes = []\<rparr>"

definition plain_world :: world where
  "plain_world =
     \<lparr>files = [([], Dir), ([''proj''], Dir),
               ([''proj'', ''README.md''], File (Text ''nothing to fill in'') True True)],
      stdin = [], stdout = [], writes = []\<rparr>"

definition blank_answers :: world where
  "blank_answers =
     \<lparr>files = [([], Dir), ([''proj''], Dir)],
      stdin = replicate 12 [] @ [''n''], stdout = [], writes = []\<rparr>"

definition failing_world :: world where
  "failing_world =
     \<lparr>files = [([], Dir), ([''proj''], Dir),
               ([''proj'', ''setup_template.py''], File (Text ''#!/usr/bin/env python3'') True True),
               ([''proj'', ''pyproject.toml''], File Undecodable True True),
               ([''proj'', ''src''], Dir),
               ([''proj'', ''docs''], Dir)],
      stdin = ['''', '''', '''', '''', '''', '''', '''', '''', ''docs'', '''', '''', '''',
               '''', ''y'', ''no''],
      stdout = [], writes = []\<rparr>"

definition failing_env :: env where
  "failing_env =
     \<lparr>script_file = [''proj'', ''setup_template.py''],
      git_init = (\<lambda>cwd fs. (Exited 128, fs)),
      pre_commit_install = (\<lambda>cwd fs. (Not_started FileNotFoundError, fs))\<rparr>"

definition relocated_world :: world where
  "relocated_world =
     \<lparr>files = [([], Dir), ([''proj''], Dir),
               ([''proj'', ''app''], Dir),
               ([''proj'', ''app'', ''main.py''], File (Text ''# {{PROJECT_NAME}}'') True True)],
      stdin = [], stdout = [], writes = []\<rparr>"

definition two_directories :: world where
  "two_directories =
     \<lparr>files = [([], Dir), ([''proj''], Dir),
               ([''proj'', ''src''], Dir),
               ([''proj'', ''src'', ''main.py''], File (Text ''import os'') True True),
               ([''proj'', ''docs''], Dir)],
      stdin = [], stdout = [], writes = []\<rparr>"

definition empty_project :: world where
  "empty_project =
     \<lparr>files = [([], Dir), ([''proj''], Dir)], stdin = [], stdout = [], writes = []\<rparr>"


definition workflow_world :: world where
  "workflow_world =
     \<lparr>files = [([], Dir), ([''proj''], Dir),
               ([''proj'', ''.github''], Dir),
               ([''proj'', ''.github'', ''workflows''], Dir),
               ([''proj'', ''.github'', ''workflows'', ''ci.yml''],
                  File (Text ''run: pytest src/ --cov'') True True),
               ([''proj'', ''.flake8''], File (Text ''exclude = src/legacy'') True True)],
      stdin = [], stdout = [], writes = []\<rparr>"

definition fixer_world :: world where
  "fixer_world =
     \<lparr>files = [([], Dir), ([''proj''], Dir),
               ([''proj'', ''MANIFEST.in''], File (Text ''^src/main.py'') True True),
               ([''proj'', ''LICENSE''], File (Text ''MIT'') True True),
               ([''proj'', ''.flake8''], File (Text ''exclude = src/legacy'') True True)],
      stdin = [], stdout = [], writes = []\<rparr>"

definition blocked_rename :: world where
  "blocked_rename =
     \<lparr>files = [([], Dir), ([''proj''], Dir),
               ([''proj'', ''README.md''], File (Text ''# demo'') True True),
               ([''proj'', ''src''], Dir),
               ([''proj'', ''src'', ''key.pem''], File (Text ''secret'') False True)],
      stdin = [], stdout = [], writes = []\<rparr>"

subsection \<open>The path tried when a listed file is missing\<close>

text \<open>
  The specification's fallback: a listed path below \<^verbatim>\<open>src/\<close> is tried below the
  resolved source directory, one below \<^verbatim>\<open>tests/\<close> below the resolved test
  directory; any other path has no second name.
\<close>

definition fallback_path :: "string \<Rightarrow> string \<Rightarrow> string \<Rightarrow> string" where
  "fallback_path source_dir test_dir file_rel_path =
     (if prefix ''src/'' file_rel_path then source_dir @ ''/'' @ drop 4 file_rel_path
      else if prefix ''tests/'' file_rel_path then test_dir @ ''/'' @ drop 6 file_rel_path
      else file_rel_path)"

definition relocated_values :: "(string \<times> string) list" where
  "relocated_values = dict_set catalog_defaults ''SOURCE_DIR'' ''app''"

subsection \<open>Well-formed file tables\<close>


subsection \<open>The four replacements of the reference fixer\<close>

text \<open>
  The specification's four pattern forms, replaced one after the other in the
  order of the table, each on the text the one before has left.
\<close>

definition rewrite_references :: "string \<Rightarrow> string \<Rightarrow> string \<Rightarrow> string" where
  "rewrite_references old_name new_name content =
     str_replace ([CHR 0x27] @ old_name @ [CHR 0x27]) ([CHR 0x27] @ new_name @ [CHR 0x27])
       (str_replace ([CHR 0x22] @ old_name @ [CHR 0x22]) ([CHR 0x22] @ new_name @ [CHR 0x22])
          (str_replace (''^'' @ old_name @ ''/'') (new_name @ ''/'')
             (str_replace (old_name @ ''/'') (new_name @ ''/'') content)))"

section \<open>Replacement of a pattern\<close>

lemma str_replace_Nil [simp]: "old \<noteq> [] \<Longrightarrow> str_replace old new [] = []"
  by (simp add: str_replace.simps)

lemma str_replace_match:
  "old \<noteq> [] \<Longrightarrow> str_replace old new (old @ s) = new @ str_replace old new s"
  by (subst str_replace.simps) simp

lemma str_replace_skip:
  "old \<noteq> [] \<Longrightarrow> \<not> prefix old (c # cs) \<Longrightarrow>
   str_replace old new (c # cs) = c # str_replace old new cs"
  by (subst str_replace.simps) simp

lemma str_replace_skip_list:
  "old \<noteq> [] \<Longrightarrow> hd old \<notin> set u \<Longrightarrow> str_replace old new (u @ r) = u @ str_replace old new r"
proof (induction u)
  case Nil
  then show ?case by simp
next
  case (Cons c u)
  then have "\<not> prefix old (c # u @ r)" by (cases old) auto
  with Cons show ?case by (simp add: str_replace_skip)
qed

lemma prefix_append_cases:
  assumes "prefix t (v @ r)"
  shows "prefix t v \<or> (\<exists>t'. t = v @ t' \<and> prefix t' r)"
  using assms by (auto simp: prefix_append)

lemma prefix_str_replaceD:
  assumes "old \<noteq> []" "\<not> sublist new t" "t = [] \<or> last t \<notin> set new"
    and "prefix t (str_replace old new s)"
  shows "prefix t s"
  using assms
proof (induction old new s arbitrary: t rule: str_replace.induct)
  case (1 old new s)
  show ?case
  proof (cases "prefix old s")
    case True
    then obtain s' where s: "s = old @ s'" by (auto simp: prefix_def)
    have "prefix t (new @ str_replace old new s')"
      using "1.prems" s by (simp add: str_replace_match)
    then consider "prefix t new" | t' where "t = new @ t'"
      using prefix_append_cases by blast
    then show ?thesis
    proof cases
      case 1
      then have "set t \<subseteq> set new" by (auto simp: prefix_def)
      with "1.prems"(3) have "t = []" by (cases t rule: rev_cases) auto
      then show ?thesis by simp
    next
      case 2
      with "1.prems"(2) show ?thesis by simp
    qed
  next
    case False
    show ?thesis
    proof (cases s)
      case Nil
      with "1.prems" show ?thesis by simp
    next
      case (Cons c cs)
      with False "1.prems" have p: "prefix t (c # str_replace old new cs)"
        by (simp add: str_replace_skip)
      show ?thesis
      proof (cases t)
        case Nil
        then show ?thesis by simp
      next
        case (Cons d t')
        with p have d: "d = c" and p': "prefix t' (str_replace old new cs)" by simp_all
        have n: "\<not> sublist new t'"
          using "1.prems"(2) Cons by (auto simp: sublist_Cons_right)
        have l: "t' = [] \<or> last t' \<notin> set new"
          using "1.prems"(3) Cons by (auto split: if_splits)
        have "prefix t' cs"
          using "1.IH"(2) [OF "1.prems"(1) False \<open>s = c # cs\<close> "1.prems"(1) n l p'] .
        with d Cons \<open>s = c # cs\<close> show ?thesis by simp
      qed
    qed
  qed
qed

lemma sublist_append_hd:
  assumes "sublist t (v @ r)" "t \<noteq> []" "hd t \<notin> set v"
  shows "sublist t r"
  using assms
proof (induction v)
  case Nil
  then show ?case by simp
next
  case (Cons a v)
  from Cons.prems(1) have "prefix t (a # v @ r) \<or> sublist t (v @ r)"
    by (simp add: sublist_Cons_right)
  moreover have "\<not> prefix t (a # v @ r)"
    using Cons.prems(2,3) by (cases t) auto
  ultimately show ?case using Cons by simp
qed

lemma sublist_str_replaceD:
  assumes "old \<noteq> []" "\<not> sublist new t" "t \<noteq> []" "hd t \<notin> set new" "last t \<notin> set new"
    and "sublist t (str_replace old new s)"
  shows "sublist t s"
  using assms
proof (induction old new s rule: str_replace.induct)
  case (1 old new s)
  show ?case
  proof (cases "prefix old s")
    case True
    then obtain s' where s: "s = old @ s'" by (auto simp: prefix_def)
    have "sublist t (new @ str_replace old new s')"
      using "1.prems" s by (simp add: str_replace_match)
    then have "sublist t (str_replace old new s')"
      using "1.prems" sublist_append_hd by blast
    then have "sublist t s'"
      using "1.IH"(1) "1.prems" True s by simp
    then show ?thesis
      using s by (metis sublist_order.order.trans sublist_append_leftI)
  next
    case False
    show ?thesis
    proof (cases s)
      case Nil
      with "1.prems" show ?thesis by simp
    next
      case (Cons c cs)
      with False "1.prems" have "sublist t (c # str_replace old new cs)"
        by (simp add: str_replace_skip)
      then consider "prefix t (c # str_replace old new cs)" | "sublist t (str_replace old new cs)"
        by (auto simp: sublist_Cons_right)
      then show ?thesis
      proof cases
        case 1
        then obtain t' where t: "t = c # t'" and p': "prefix t' (str_replace old new cs)"
          using "1.prems"(3) by (cases t) auto
        have n: "\<not> sublist new t'"
          using "1.prems"(2) t by (auto simp: sublist_Cons_right)
        have l: "t' = [] \<or> last t' \<notin> set new"
          using "1.prems"(5) t by (auto split: if_splits)
        have "prefix t' cs"
          using prefix_str_replaceD [OF "1.prems"(1) n l p'] .
        then show ?thesis using t Cons by (simp add: sublist_Cons_right)
      next
        case 2
        then have "sublist t cs"
          using "1.IH"(2) "1.prems" False Cons by simp
        then show ?thesis using Cons by (simp add: sublist_Cons_right)
      qed
    qed
  qed
qed

lemma not_sublist_str_replace:
  assumes "old \<noteq> []" "\<not> sublist new old" "hd old \<notin> set new" "last old \<notin> set new"
  shows "\<not> sublist old (str_replace old new s)"
  using assms
proof (induction old new s rule: str_replace.induct)
  case (1 old new s)
  show ?case
  proof (cases "prefix old s")
    case True
    then obtain s' where s: "s = old @ s'" by (auto simp: prefix_def)
    have "\<not> sublist old (str_replace old new s')"
      using "1.IH"(1) "1.prems" True s by simp
    then have "\<not> sublist old (new @ str_replace old new s')"
      using sublist_append_hd "1.prems" by blast
    then show ?thesis using s "1.prems" by (simp add: str_replace_match)
  next
    case False
    show ?thesis
    proof (cases s)
      case Nil
      with "1.prems" show ?thesis by simp
    next
      case (Cons c cs)
      have ih: "\<not> sublist old (str_replace old new cs)"
        using "1.IH"(2) "1.prems" False Cons by simp
      have "\<not> prefix old (c # str_replace old new cs)"
      proof
        assume p: "prefix old (c # str_replace old new cs)"
        then obtain t' where t: "old = c # t'" and p': "prefix t' (str_replace old new cs)"
          using "1.prems"(1) by (cases old) auto
        have n: "\<not> sublist new t'"
          using "1.prems"(2) t by (auto simp: sublist_Cons_right)
        have l: "t' = [] \<or> last t' \<notin> set new"
          using "1.prems"(4) t by (auto split: if_splits)
        have "prefix t' cs"
          using prefix_str_replaceD [OF "1.prems"(1) n l p'] .
        with t Cons False show False by simp
      qed
      with ih show ?thesis
        using Cons False "1.prems" by (simp add: str_replace_skip sublist_Cons_right)
    qed
  qed
qed

lemma str_replace_absent:
  "old \<noteq> [] \<Longrightarrow> \<not> sublist old s \<Longrightarrow> str_replace old new s = s"
proof (induction old new s rule: str_replace.induct)
  case (1 old new s)
  have np: "\<not> prefix old s" using "1.prems" by auto
  show ?case
  proof (cases s)
    case Nil
    then show ?thesis using "1.prems" by simp
  next
    case (Cons c cs)
    have "\<not> sublist old cs" using "1.prems" Cons by (simp add: sublist_Cons_right)
    then have "str_replace old new cs = cs" using "1.IH"(2) "1.prems" np Cons by simp
    then show ?thesis using Cons np "1.prems" by (simp add: str_replace_skip)
  qed
qed

subsection \<open>Tokens\<close>

lemma token_not_Nil [simp]: "token n \<noteq> []"
  by (simp add: token_def)

lemma hd_token [simp]: "hd (token n) = CHR ''{''"
  by (simp add: token_def)

lemma last_token [simp]: "last (token n) = CHR ''}''"
  by (simp add: token_def)

lemma substitute_absent:
  "\<forall>(n, v) \<in> set cfg. \<not> sublist (token n) s \<Longrightarrow> substitute cfg s = s"
  by (induction cfg arbitrary: s) (auto simp: str_replace_absent)

lemma match_token_SomeD:
  "match_token cfg s = Some (n, v) \<Longrightarrow> (n, v) \<in> set cfg \<and> prefix (token n) s"
  by (induction cfg) (auto split: if_splits)

lemma match_token_None_iff:
  "match_token cfg s = None \<longleftrightarrow> (\<forall>(n, v) \<in> set cfg. \<not> prefix (token n) s)"
  by (induction cfg) (auto split: if_splits)

lemma tokenise_Nil [simp]: "tokenise cfg [] = []"
  by (simp add: tokenise.simps)

lemma tokenise_match:
  "match_token cfg s = Some (n, v) \<Longrightarrow>
   tokenise cfg s = Tok n v # tokenise cfg (drop (length (token n)) s)"
  by (subst tokenise.simps) (auto split: list.splits dest: match_token_SomeD)

lemma tokenise_skip:
  "match_token cfg (c # cs) = None \<Longrightarrow> tokenise cfg (c # cs) = Lit c # tokenise cfg cs"
  by (subst tokenise.simps) simp

lemma well_behavedD:
  assumes "well_behaved cfg" "(n, v) \<in> set cfg"
  shows "brace_free n" "brace_free v" "(m, u) \<in> set cfg \<Longrightarrow> \<not> sublist v (token m)"
  using assms unfolding well_behaved_def by blast+

lemma render_tokenise: "render (tokenise cfg s) = s"
proof (induction "length s" arbitrary: s rule: less_induct)
  case less
  show ?case
  proof (cases s)
    case Nil
    then show ?thesis by simp
  next
    case (Cons c cs)
    show ?thesis
    proof (cases "match_token cfg s")
      case None
      with less Cons show ?thesis by (simp add: tokenise_skip)
    next
      case (Some a)
      obtain n v where a: "a = (n, v)" by (cases a)
      with Some have "prefix (token n) s" by (auto dest: match_token_SomeD)
      then obtain s' where s: "s = token n @ s'" by (auto simp: prefix_def)
      have "render (tokenise cfg s') = s'"
        using less s by simp
      with Some a s show ?thesis
        by (simp add: tokenise_match)
    qed
  qed
qed

text \<open>After the pass of a variable its token is gone, and no later pass brings it back.\<close>

lemma absent_preserved:
  assumes "\<forall>(m, u) \<in> set rest. brace_free u \<and> \<not> sublist u (token n)"
    and "\<not> sublist (token n) s"
  shows "\<not> sublist (token n) (substitute rest s)"
  using assms
proof (induction rest arbitrary: s)
  case Nil
  then show ?case by simp
next
  case (Cons a rest)
  obtain m u where a: "a = (m, u)" by (cases a)
  have u: "brace_free u" "\<not> sublist u (token n)" using Cons.prems(1) a by auto
  have "\<not> sublist (token n) (str_replace (token m) u s)"
    using sublist_str_replaceD [of "token m" u "token n" s] u Cons.prems(2)
    by (auto simp: brace_free_def)
  moreover have "\<forall>(m, u) \<in> set rest. brace_free u \<and> \<not> sublist u (token n)"
    using Cons.prems(1) by simp
  ultimately show ?case using Cons.IH a by simp
qed

lemma no_token_left_aux:
  assumes "\<forall>(m, u) \<in> set cfg. brace_free u \<and> \<not> sublist u (token n)" "(n, v) \<in> set cfg"
  shows "\<not> sublist (token n) (substitute cfg s)"
  using assms
proof (induction cfg arbitrary: s)
  case Nil
  then show ?case by simp
next
  case (Cons a cfg)
  obtain m u where a: "a = (m, u)" by (cases a)
  have rest: "\<forall>(m, u) \<in> set cfg. brace_free u \<and> \<not> sublist u (token n)"
    using Cons.prems(1) by simp
  show ?case
  proof (cases "(n, v) \<in> set cfg")
    case True
    then show ?thesis using Cons.IH rest a by simp
  next
    case False
    with Cons.prems(2) a have eq: "m = n" "u = v" by auto
    have u: "brace_free v" "\<not> sublist v (token n)"
      using Cons.prems(1) a eq by auto
    have "\<not> sublist (token n) (str_replace (token n) v s)"
      using not_sublist_str_replace [of "token n" v s] u by (auto simp: brace_free_def)
    then have "\<not> sublist (token n) (substitute cfg (str_replace (token n) v s))"
      using absent_preserved rest by blast
    then show ?thesis using a eq by simp
  qed
qed

lemma no_token_left:
  assumes "well_behaved cfg" "(n, v) \<in> set cfg"
  shows "\<not> sublist (token n) (substitute cfg s)"
proof -
  have "\<forall>(m, u) \<in> set cfg. brace_free u \<and> \<not> sublist u (token n)"
    using well_behavedD [OF assms(1)] assms(2) by blast
  then show ?thesis using no_token_left_aux assms(2) by blast
qed


subsection \<open>The passes, one variable after the other, against one scan\<close>

lemma expand_map_Lit [simp]: "expand (map Lit s @ segs) = s @ expand segs"
  by (induction s) auto

lemma tokenise_empty_cfg: "tokenise [] s = map Lit s"
  by (induction s) (auto simp: tokenise_skip)

lemma match_token_not_brace:
  "c \<noteq> CHR ''{'' \<Longrightarrow> match_token cfg (c # cs) = None"
  by (induction cfg) (auto simp: token_def)

lemma tokenise_brace_free_prefix:
  "CHR ''{'' \<notin> set v \<Longrightarrow> tokenise cfg (v @ r) = map Lit v @ tokenise cfg r"
  by (induction v) (auto simp: tokenise_skip match_token_not_brace)

lemma prefix_stop_unique:
  "x \<notin> set k \<Longrightarrow> x \<notin> set m \<Longrightarrow> prefix (k @ x # a) (m @ x # b) \<Longrightarrow> k = m"
proof (induction k arbitrary: m)
  case Nil
  then show ?case by (cases m) auto
next
  case (Cons c k)
  then show ?case by (cases m) auto
qed

lemma prefix_token_token:
  assumes "brace_free k" "brace_free m" "prefix (token k) (token m @ r)"
  shows "k = m"
proof -
  have "prefix (k @ CHR ''}'' # ''}'') (m @ CHR ''}'' # (''}'' @ r))"
    using assms(3) by (simp add: token_def)
  then show ?thesis
    using assms(1,2) prefix_stop_unique [of "CHR ''}''" k m] by (simp add: brace_free_def)
qed

lemma match_token_at_token:
  assumes "\<forall>(k, x) \<in> set cfg. brace_free k" "brace_free m"
  shows "match_token cfg (token m @ r) = match_token cfg (token m @ r')"
  using assms(1)
proof (induction cfg)
  case Nil
  then show ?case by simp
next
  case (Cons a cfg)
  obtain k x where a: "a = (k, x)" by (cases a)
  have k: "brace_free k" using Cons.prems a by simp
  have "prefix (token k) (token m @ r) \<longleftrightarrow> k = m" for r
    using prefix_token_token [OF k assms(2)] by auto
  then show ?case using Cons a by simp
qed

lemma str_replace_over_token:
  assumes "brace_free m" "\<not> prefix (token n) (token m @ r)"
  shows "str_replace (token n) v (token m @ r) = token m @ str_replace (token n) v r"
proof -
  let ?u = "m @ ''}}''"
  have tm: "token m @ r = CHR ''{'' # CHR ''{'' # ?u @ r"
    by (simp add: token_def)
  have u: "CHR ''{'' \<notin> set ?u"
    using assms(1) by (simp add: brace_free_def)
  have "hd (?u @ r) \<noteq> CHR ''{''"
    using u by (cases m) auto
  then have np: "\<not> prefix (token n) (CHR ''{'' # ?u @ r)"
    by (cases "?u @ r") (auto simp: token_def)
  have "str_replace (token n) v (token m @ r)
        = CHR ''{'' # str_replace (token n) v (CHR ''{'' # ?u @ r)"
    using assms(2) unfolding tm by (simp add: str_replace_skip)
  also have "\<dots> = CHR ''{'' # CHR ''{'' # str_replace (token n) v (?u @ r)"
    using np by (simp add: str_replace_skip)
  also have "\<dots> = CHR ''{'' # CHR ''{'' # ?u @ str_replace (token n) v r"
    using str_replace_skip_list [of "token n" ?u v r] u by simp
  finally show ?thesis by (simp add: token_def)
qed

lemma expand_tokenise_step:
  assumes v: "brace_free v"
    and names: "\<forall>(m, u) \<in> set cfg. brace_free m"
    and inside: "\<forall>(m, u) \<in> set cfg. \<not> sublist v (token m)"
  shows "expand (tokenise ((n, v) # cfg) s) = expand (tokenise cfg (str_replace (token n) v s))"
proof (induction "length s" arbitrary: s rule: less_induct)
  case less
  let ?t = "token n"
  show ?case
  proof (cases s)
    case Nil
    then show ?thesis by simp
  next
    case (Cons c cs)
    show ?thesis
    proof (cases "prefix ?t s")
      case True
      then obtain s' where s: "s = ?t @ s'" by (auto simp: prefix_def)
      have "tokenise ((n, v) # cfg) s = Tok n v # tokenise ((n, v) # cfg) s'"
        using tokenise_match [of "(n, v) # cfg" s n v] s by simp
      moreover have "expand (tokenise ((n, v) # cfg) s')
                     = expand (tokenise cfg (str_replace ?t v s'))"
        using less s by simp
      moreover have "tokenise cfg (str_replace ?t v s)
                     = map Lit v @ tokenise cfg (str_replace ?t v s')"
        using v s by (simp add: str_replace_match tokenise_brace_free_prefix brace_free_def)
      ultimately show ?thesis by simp
    next
      case False
      show ?thesis
      proof (cases "match_token cfg s")
        case (Some a)
        obtain m u where a: "a = (m, u)" by (cases a)
        have mu: "(m, u) \<in> set cfg" "prefix (token m) s"
          using Some a by (auto dest: match_token_SomeD)
        then obtain s' where s: "s = token m @ s'" by (auto simp: prefix_def)
        have bm: "brace_free m" using names mu(1) by auto
        have "tokenise ((n, v) # cfg) s = Tok m u # tokenise ((n, v) # cfg) s'"
          using tokenise_match [of "(n, v) # cfg" s m u] False Some a s by simp
        moreover have "expand (tokenise ((n, v) # cfg) s')
                       = expand (tokenise cfg (str_replace ?t v s'))"
          using less s by simp
        moreover have r: "str_replace ?t v s = token m @ str_replace ?t v s'"
          using str_replace_over_token [OF bm] False s by simp
        moreover have "match_token cfg (token m @ str_replace ?t v s') = Some (m, u)"
          using match_token_at_token [OF names bm, of "str_replace ?t v s'" s'] Some a s
          by simp
        then have "tokenise cfg (token m @ str_replace ?t v s')
                   = Tok m u # tokenise cfg (str_replace ?t v s')"
          using tokenise_match [of cfg "token m @ str_replace ?t v s'" m u] by simp
        ultimately show ?thesis by simp
      next
        case None
        have "tokenise ((n, v) # cfg) s = Lit c # tokenise ((n, v) # cfg) cs"
          using None False Cons by (simp add: tokenise_skip)
        moreover have "expand (tokenise ((n, v) # cfg) cs)
                       = expand (tokenise cfg (str_replace ?t v cs))"
          using less Cons by simp
        moreover have r: "str_replace ?t v s = c # str_replace ?t v cs"
          using False Cons by (simp add: str_replace_skip)
        moreover have "match_token cfg (c # str_replace ?t v cs) = None"
        proof -
          have "\<not> prefix (token k) (c # str_replace ?t v cs)" if kx: "(k, x) \<in> set cfg" for k x
          proof
            assume p: "prefix (token k) (c # str_replace ?t v cs)"
            then obtain t' where t: "token k = c # t'" and p': "prefix t' (str_replace ?t v cs)"
              by (cases "token k") auto
            have "\<not> sublist v (token k)" using inside kx by auto
            then have n: "\<not> sublist v t'" using t by (auto simp: sublist_Cons_right)
            have "last (c # t') = CHR ''}''" using t last_token [of k] by simp
            then have l: "t' = [] \<or> last t' \<notin> set v"
              using v by (auto simp: brace_free_def split: if_splits)
            have "prefix t' cs"
              using prefix_str_replaceD [OF token_not_Nil n l p'] .
            then have "prefix (token k) s" using t Cons by simp
            moreover have "\<not> prefix (token k) s"
              using None kx by (auto simp: match_token_None_iff)
            ultimately show False by simp
          qed
          then show ?thesis by (auto simp: match_token_None_iff)
        qed
        then have "tokenise cfg (c # str_replace ?t v cs)
                   = Lit c # tokenise cfg (str_replace ?t v cs)"
          by (rule tokenise_skip)
        ultimately show ?thesis by simp
      qed
    qed
  qed
qed

lemma well_behaved_tail: "well_behaved (a # cfg) \<Longrightarrow> well_behaved cfg"
  unfolding well_behaved_def by auto

lemma substitute_eq_expand:
  "well_behaved cfg \<Longrightarrow> substitute cfg s = expand (tokenise cfg s)"
proof (induction cfg arbitrary: s)
  case Nil
  show ?case using expand_map_Lit [of s "[]"] by (simp add: tokenise_empty_cfg)
next
  case (Cons a cfg)
  obtain n v where a: "a = (n, v)" by (cases a)
  have wb: "well_behaved cfg" using Cons.prems well_behaved_tail by blast
  have v: "brace_free v"
    using well_behavedD(2) [OF Cons.prems, of n v] a by simp
  have names: "\<forall>(m, u) \<in> set cfg. brace_free m"
    using well_behavedD(1) [OF Cons.prems] by auto
  have inside: "\<forall>(m, u) \<in> set cfg. \<not> sublist v (token m)"
    using well_behavedD(3) [OF Cons.prems, of n v] a by auto
  have "substitute (a # cfg) s = substitute cfg (str_replace (token n) v s)"
    using a by simp
  also have "\<dots> = expand (tokenise cfg (str_replace (token n) v s))"
    using Cons.IH [OF wb] .
  also have "\<dots> = expand (tokenise (a # cfg) s)"
    using expand_tokenise_step [OF v names inside] a by simp
  finally show ?case .
qed

section \<open>Files\<close>

lemma map_of_set_node: "map_of (set_node p n fs) = (map_of fs)(p \<mapsto> n)"
  by (induction fs) (auto simp: fun_eq_iff)

lemma map_fst_set_node:
  "map_of fs p \<noteq> None \<Longrightarrow> map fst (set_node p n fs) = map fst fs"
  by (induction fs) auto

lemma replace_in_file_text:
  assumes "lookup w p = Some (File (Text s) True True)"
  shows "replace_in_file p cfg w =
           (if substitute cfg s \<noteq> s
            then (True, w\<lparr>files := set_node p (File (Text (substitute cfg s)) True True) (files w),
                          writes := writes w @ [p]\<rparr>)
            else (False, w))"
  using assms by (simp add: replace_in_file_def read_text_def write_text_def)

lemma lookup_after_replace:
  assumes "lookup w p = Some (File (Text s) True True)"
  shows "lookup (snd (replace_in_file p cfg w)) p = Some (File (Text (substitute cfg s)) True True)"
  using assms by (simp add: replace_in_file_text) (simp add: lookup_def map_of_set_node)

section \<open>Prompts\<close>

lemma dict_set_fresh: "k \<notin> fst ` set d \<Longrightarrow> dict_set d k v = d @ [(k, v)]"
  by (induction d k v rule: dict_set.induct) auto

lemma get_input_blank:
  assumes "stdin w = l # ls" "strip l = []"
  shows "get_input prompt default' w
         = Inr (default', w\<lparr>stdin := ls,
                             stdout := stdout w @ [Prompt (prompt @ '' ['' @ default' @ '']: '')]\<rparr>)"
  using assms by (simp add: get_input_def input_def)

lemma collect_loop_blank:
  assumes "distinct (map fst vars)" "fst ` set acc \<inter> fst ` set vars = {}"
    and "stdin w = blanks @ rest" "length blanks = length vars" "\<forall>l \<in> set blanks. strip l = []"
  shows "\<exists>w'. collect_loop vars acc w
              = Inr (acc @ map (\<lambda>(var_name, info). (var_name, default_value info)) vars, w')
            \<and> stdin w' = rest \<and> files w' = files w \<and> writes w' = writes w"
  using assms
proof (induction vars arbitrary: acc w blanks)
  case Nil
  then show ?case by simp
next
  case (Cons a vars)
  obtain var_name info where a: "a = (var_name, info)" by (cases a)
  from Cons.prems(4) obtain l ls where b: "blanks = l # ls" by (cases blanks) auto
  let ?w0 = "py_print (nl @ description info) w"
  let ?w1 = "?w0\<lparr>stdin := ls @ rest,
                 stdout := stdout ?w0 @ [Prompt ((''  '' @ var_name) @ '' ['' @ default_value info @ '']: '')]\<rparr>"
  have g: "get_input (''  '' @ var_name) (default_value info) ?w0 = Inr (default_value info, ?w1)"
    using get_input_blank [of ?w0 l "ls @ rest"] Cons.prems(3,5) b
    by (simp add: py_print_def)
  have fresh: "var_name \<notin> fst ` set acc" using Cons.prems(2) a by auto
  have d: "dict_set acc var_name (default_value info) = acc @ [(var_name, default_value info)]"
    using fresh by (rule dict_set_fresh)
  have "\<exists>w'. collect_loop vars (acc @ [(var_name, default_value info)]) ?w1
              = Inr ((acc @ [(var_name, default_value info)])
                      @ map (\<lambda>(var_name, info). (var_name, default_value info)) vars, w')
            \<and> stdin w' = rest \<and> files w' = files ?w1 \<and> writes w' = writes ?w1"
  proof (rule Cons.IH)
    show "distinct (map fst vars)" using Cons.prems(1) by simp
    show "fst ` set (acc @ [(var_name, default_value info)]) \<inter> fst ` set vars = {}"
      using Cons.prems(1,2) a by auto
    show "stdin ?w1 = ls @ rest" by simp
    show "length ls = length vars" using Cons.prems(4) b by simp
    show "\<forall>l \<in> set ls. strip l = []" using Cons.prems(5) b by simp
  qed
  then show ?case using a g d by (simp add: py_print_def)
qed

section \<open>The loop over the target list\<close>

lemma str_replace_n_first:
  "old \<noteq> [] \<Longrightarrow> str_replace_n 1 old new (old @ r) = new @ r"
  by (subst str_replace_n.simps, simp, subst str_replace_n.simps, simp)

section \<open>Moving a directory\<close>













section \<open>The reference fixer\<close>

lemma apply_patterns_True [simp]: "snd (apply_patterns ps c True)"
  by (induction ps arbitrary: c) auto

lemma apply_patterns_modified:
  "\<exists>(old_pattern, new_pattern) \<in> set ps. sublist old_pattern c \<Longrightarrow> snd (apply_patterns ps c m)"
proof (induction ps arbitrary: m)
  case Nil
  then show ?case by simp
next
  case (Cons a ps)
  obtain old_pattern new_pattern where a: "a = (old_pattern, new_pattern)" by (cases a)
  show ?case
  proof (cases "sublist old_pattern c")
    case True
    then show ?thesis using a by simp
  next
    case False
    with Cons.prems a have "\<exists>(old_pattern, new_pattern) \<in> set ps. sublist old_pattern c"
      by auto
    then have "snd (apply_patterns ps c m)" by (rule Cons.IH)
    with False a show ?thesis by simp
  qed
qed

lemma apply_patterns_fst:
  "\<forall>(old_pattern, new_pattern) \<in> set ps. old_pattern \<noteq> [] \<Longrightarrow>
   fst (apply_patterns ps c m) = foldl (\<lambda>c (old_pattern, new_pattern). str_replace old_pattern new_pattern c) c ps"
  by (induction ps arbitrary: c m) (auto simp: str_replace_absent)

lemma apply_patterns_rewrite:
  "fst (apply_patterns (patterns old_name new_name) c False) = rewrite_references old_name new_name c"
  by (subst apply_patterns_fst) (simp_all add: patterns_def rewrite_references_def)

lemma update_file_eligible:
  assumes "lookup w p = Some (File (Text c) True True)" "\<not> prefix ''.'' (name_of p)"
  shows "update_file ps p w =
           Inr (if snd (apply_patterns ps c False)
                then w\<lparr>files := set_node p (File (Text (fst (apply_patterns ps c False))) True True)
                                  (files w),
                       writes := writes w @ [p]\<rparr>
                else w)"
  using assms
  by (simp add: update_file_def is_file_def read_text_def write_text_def split: prod.splits)

lemma update_file_frame:
  "\<exists>w'. update_file ps q w = Inr w' \<and> (\<forall>p. p \<noteq> q \<longrightarrow> lookup w' p = lookup w p)
        \<and> set (writes w) \<subseteq> set (writes w')"
  by (auto simp: update_file_def is_file_def read_text_def write_text_def passed_def lookup_def
        map_of_set_node
      split: prod.splits option.splits node.splits fcontent.splits)

lemma update_loop_frame:
  "\<exists>w'. update_loop ps paths w = Inr w' \<and> (\<forall>p. p \<notin> set paths \<longrightarrow> lookup w' p = lookup w p)
        \<and> set (writes w) \<subseteq> set (writes w')"
proof (induction paths arbitrary: w)
  case Nil
  then show ?case by simp
next
  case (Cons q paths)
  obtain w1 where w1: "update_file ps q w = Inr w1" "\<forall>p. p \<noteq> q \<longrightarrow> lookup w1 p = lookup w p"
    "set (writes w) \<subseteq> set (writes w1)"
    using update_file_frame by blast
  obtain w2 where w2: "update_loop ps paths w1 = Inr w2"
    "\<forall>p. p \<notin> set paths \<longrightarrow> lookup w2 p = lookup w1 p" "set (writes w1) \<subseteq> set (writes w2)"
    using Cons.IH by blast
  from w1 w2 show ?case by auto
qed

lemma update_loop_at:
  assumes "distinct paths" "p \<in> set paths"
    and "lookup w p = Some (File (Text c) True True)" "\<not> prefix ''.'' (name_of p)"
  shows "\<exists>w'. update_loop ps paths w = Inr w'
        \<and> lookup w' p = Some (File (Text (fst (apply_patterns ps c False))) True True)
        \<and> (snd (apply_patterns ps c False) \<longrightarrow> p \<in> set (writes w'))"
  using assms
proof (induction paths arbitrary: w)
  case Nil
  then show ?case by simp
next
  case (Cons q paths)
  show ?case
  proof (cases "q = p")
    case True
    let ?w1 = "if snd (apply_patterns ps c False)
                then w\<lparr>files := set_node p (File (Text (fst (apply_patterns ps c False))) True True)
                                  (files w),
                       writes := writes w @ [p]\<rparr>
                else w"
    have u: "update_file ps p w = Inr ?w1"
      using Cons.prems(3,4) by (rule update_file_eligible)
    have l1: "lookup ?w1 p = Some (File (Text (fst (apply_patterns ps c False))) True True)"
    proof (cases "snd (apply_patterns ps c False)")
      case True
      then show ?thesis by (simp add: lookup_def map_of_set_node)
    next
      case False
      then have "fst (apply_patterns ps c False) = c"
        by (induction ps) (auto split: if_splits)
      with False Cons.prems(3) show ?thesis by simp
    qed
    have wr: "snd (apply_patterns ps c False) \<longrightarrow> p \<in> set (writes ?w1)" by simp
    have "p \<notin> set paths" using Cons.prems(1) True by simp
    moreover obtain w2 where "update_loop ps paths ?w1 = Inr w2"
      "\<forall>p. p \<notin> set paths \<longrightarrow> lookup w2 p = lookup ?w1 p" "set (writes ?w1) \<subseteq> set (writes w2)"
      using update_loop_frame by blast
    ultimately show ?thesis using u l1 wr True by auto
  next
    case False
    obtain w1 where w1: "update_file ps q w = Inr w1" "\<forall>p. p \<noteq> q \<longrightarrow> lookup w1 p = lookup w p"
      using update_file_frame by blast
    have "lookup w1 p = Some (File (Text c) True True)"
      using w1(2) False Cons.prems(3) by simp
    moreover have "distinct paths" "p \<in> set paths"
      using Cons.prems(1,2) False by auto
    ultimately have "\<exists>w'. update_loop ps paths w1 = Inr w'
        \<and> lookup w' p = Some (File (Text (fst (apply_patterns ps c False))) True True)
        \<and> (snd (apply_patterns ps c False) \<longrightarrow> p \<in> set (writes w'))"
      using Cons.IH Cons.prems(4) by blast
    then show ?thesis using w1(1) by simp
  qed
qed

lemma apply_patterns_unmodified:
  "\<not> snd (apply_patterns ps c False) \<Longrightarrow> fst (apply_patterns ps c False) = c"
  by (induction ps) (auto split: if_splits)

lemma apply_patterns_found:
  "snd (apply_patterns ps c False) \<Longrightarrow> \<exists>(old_pattern, new_pattern) \<in> set ps. sublist old_pattern c"
  by (induction ps) (auto split: if_splits)

lemma update_file_other:
  assumes "\<not> (\<exists>c. lookup w p = Some (File (Text c) True True) \<and> \<not> prefix ''.'' (name_of p))"
  shows "\<exists>w'. update_file ps p w = Inr w' \<and> files w' = files w \<and> writes w' = writes w"
  using assms
  by (auto simp: update_file_def is_file_def read_text_def write_text_def passed_def
      split: prod.splits option.splits node.splits fcontent.splits)

lemma update_file_writes:
  "\<exists>w'. update_file ps q w = Inr w' \<and> (\<forall>p. p \<noteq> q \<longrightarrow> lookup w' p = lookup w p)
        \<and> (writes w' = writes w \<or> writes w' = writes w @ [q])"
  by (auto simp: update_file_def is_file_def read_text_def write_text_def passed_def lookup_def
        map_of_set_node
      split: prod.splits option.splits node.splits fcontent.splits)

lemma update_loop_table:
  assumes "distinct paths"
  shows "\<exists>w' ws. update_loop ps paths w = Inr w' \<and> writes w' = writes w @ ws \<and> set ws \<subseteq> set paths
        \<and> (\<forall>p. p \<notin> set paths \<longrightarrow> lookup w' p = lookup w p)
        \<and> (\<forall>p \<in> set paths. \<forall>c.
              lookup w p = Some (File (Text c) True True) \<and> \<not> prefix ''.'' (name_of p) \<longrightarrow>
                lookup w' p = Some (File (Text (fst (apply_patterns ps c False))) True True)
                \<and> (p \<in> set ws \<longleftrightarrow> snd (apply_patterns ps c False)))
        \<and> (\<forall>p \<in> set paths.
              \<not> (\<exists>c. lookup w p = Some (File (Text c) True True) \<and> \<not> prefix ''.'' (name_of p)) \<longrightarrow>
                lookup w' p = lookup w p \<and> p \<notin> set ws)"
  using assms
proof (induction paths arbitrary: w)
  case Nil
  then show ?case by simp
next
  case (Cons q paths)
  have dq: "q \<notin> set paths" and dp: "distinct paths" using Cons.prems by auto
  obtain w1 where w1: "update_file ps q w = Inr w1"
    and fr: "\<forall>p. p \<noteq> q \<longrightarrow> lookup w1 p = lookup w p"
    using update_file_writes by blast
  obtain w' ws where ih: "update_loop ps paths w1 = Inr w'" "writes w' = writes w1 @ ws"
    "set ws \<subseteq> set paths"
    "\<forall>p. p \<notin> set paths \<longrightarrow> lookup w' p = lookup w1 p"
    "\<forall>p \<in> set paths. \<forall>c.
              lookup w1 p = Some (File (Text c) True True) \<and> \<not> prefix ''.'' (name_of p) \<longrightarrow>
                lookup w' p = Some (File (Text (fst (apply_patterns ps c False))) True True)
                \<and> (p \<in> set ws \<longleftrightarrow> snd (apply_patterns ps c False))"
    "\<forall>p \<in> set paths.
              \<not> (\<exists>c. lookup w1 p = Some (File (Text c) True True) \<and> \<not> prefix ''.'' (name_of p)) \<longrightarrow>
                lookup w' p = lookup w1 p \<and> p \<notin> set ws"
    using Cons.IH [OF dp, of w1] by blast
  have run: "update_loop ps (q # paths) w = Inr w'" using w1 ih(1) by simp
  have same: "lookup w1 p = lookup w p" if "p \<in> set paths" for p
    using that dq fr by auto
  have qws: "q \<notin> set ws" using ih(3) dq by auto
  show ?case
  proof (cases "\<exists>c. lookup w q = Some (File (Text c) True True) \<and> \<not> prefix ''.'' (name_of q)")
    case True
    then obtain c where c: "lookup w q = Some (File (Text c) True True)"
      "\<not> prefix ''.'' (name_of q)" by blast
    let ?m = "snd (apply_patterns ps c False)"
    let ?t = "fst (apply_patterns ps c False)"
    have w1': "w1 = (if ?m then w\<lparr>files := set_node q (File (Text ?t) True True) (files w),
                                   writes := writes w @ [q]\<rparr> else w)"
      using update_file_eligible [OF c, of ps] w1 by simp
    have l1: "lookup w1 q = Some (File (Text ?t) True True)"
      using w1' c(1) apply_patterns_unmodified [of ps c]
      by (auto simp: lookup_def map_of_set_node)
    have lq: "lookup w' q = Some (File (Text ?t) True True)"
      using ih(4) dq l1 by simp
    have wr: "writes w' = writes w @ ((if ?m then [q] else []) @ ws)"
      using ih(2) w1' by simp
    let ?ws = "(if ?m then [q] else []) @ ws"
    have "set ?ws \<subseteq> set (q # paths)" using ih(3) by auto
    moreover have "\<forall>p. p \<notin> set (q # paths) \<longrightarrow> lookup w' p = lookup w p"
      using ih(4) fr by auto
    moreover have "\<forall>p \<in> set (q # paths). \<forall>c.
              lookup w p = Some (File (Text c) True True) \<and> \<not> prefix ''.'' (name_of p) \<longrightarrow>
                lookup w' p = Some (File (Text (fst (apply_patterns ps c False))) True True)
                \<and> (p \<in> set ?ws \<longleftrightarrow> snd (apply_patterns ps c False))"
    proof (intro ballI allI impI)
      fix p c'
      assume p: "p \<in> set (q # paths)"
        and h: "lookup w p = Some (File (Text c') True True) \<and> \<not> prefix ''.'' (name_of p)"
      show "lookup w' p = Some (File (Text (fst (apply_patterns ps c' False))) True True)
                \<and> (p \<in> set ?ws \<longleftrightarrow> snd (apply_patterns ps c' False))"
      proof (cases "p = q")
        case True
        with h c have "c' = c" by simp
        with True lq qws show ?thesis by simp
      next
        case False
        with p have pp: "p \<in> set paths" by simp
        with h same have "lookup w1 p = Some (File (Text c') True True) \<and> \<not> prefix ''.'' (name_of p)"
          by simp
        with ih(5) pp False show ?thesis by auto
      qed
    qed
    moreover have "\<forall>p \<in> set (q # paths).
              \<not> (\<exists>c. lookup w p = Some (File (Text c) True True) \<and> \<not> prefix ''.'' (name_of p)) \<longrightarrow>
                lookup w' p = lookup w p \<and> p \<notin> set ?ws"
    proof (intro ballI impI)
      fix p
      assume p: "p \<in> set (q # paths)"
        and h: "\<not> (\<exists>c. lookup w p = Some (File (Text c) True True) \<and> \<not> prefix ''.'' (name_of p))"
      from h True have "p \<noteq> q" by blast
      with p have pp: "p \<in> set paths" by simp
      with h same have "\<not> (\<exists>c. lookup w1 p = Some (File (Text c) True True) \<and> \<not> prefix ''.'' (name_of p))"
        by simp
      with ih(6) pp same \<open>p \<noteq> q\<close> show "lookup w' p = lookup w p \<and> p \<notin> set ?ws" by auto
    qed
    ultimately show ?thesis using run wr by blast
  next
    case False
    then obtain w1' where "update_file ps q w = Inr w1'" "files w1' = files w" "writes w1' = writes w"
      using update_file_other by blast
    with w1 have e: "files w1 = files w" "writes w1 = writes w" by auto
    then have lw: "lookup w1 p = lookup w p" for p by (simp add: lookup_def)
    have wr: "writes w' = writes w @ ws" using ih(2) e by simp
    have "set ws \<subseteq> set (q # paths)" using ih(3) by auto
    moreover have "\<forall>p. p \<notin> set (q # paths) \<longrightarrow> lookup w' p = lookup w p"
      using ih(4) lw by auto
    moreover have "\<forall>p \<in> set (q # paths). \<forall>c.
              lookup w p = Some (File (Text c) True True) \<and> \<not> prefix ''.'' (name_of p) \<longrightarrow>
                lookup w' p = Some (File (Text (fst (apply_patterns ps c False))) True True)
                \<and> (p \<in> set ws \<longleftrightarrow> snd (apply_patterns ps c False))"
      using ih(5) lw False by auto
    moreover have "\<forall>p \<in> set (q # paths).
              \<not> (\<exists>c. lookup w p = Some (File (Text c) True True) \<and> \<not> prefix ''.'' (name_of p)) \<longrightarrow>
                lookup w' p = lookup w p \<and> p \<notin> set ws"
      using ih(6) ih(4) lw qws dq by auto
    ultimately show ?thesis using run wr by blast
  qed
qed

section \<open>The claims\<close>

text \<open>
  Claim C1, as the code has it. The claim says that after \<open>replace_in_file\<close> no
  token of a configuration variable is left in a file that held one. The values
  are put in one variable after the other and are taken as typed, so a value that
  holds a token of an earlier variable stays in the text: with
  \<open>GITHUB_OWNER\<close> set to the text \<open>{{PROJECT_NAME}}\<close>, the file
  \<open>by {{GITHUB_OWNER}}\<close> ends as \<open>by {{PROJECT_NAME}}\<close>.
\<close>

theorem substitution_leaves_token:
  "sublist (token ''GITHUB_OWNER'') ''by {{GITHUB_OWNER}}'' \<and>
   (''PROJECT_NAME'', ''demo'') \<in> set example_values \<and>
   lookup example_world [''proj'', ''README.md'']
     = Some (File (Text ''by {{GITHUB_OWNER}}'') True True) \<and>
   lookup (snd (replace_in_file [''proj'', ''README.md''] example_values example_world))
      [''proj'', ''README.md'']
     = Some (File (Text ''by {{PROJECT_NAME}}'') True True) \<and>
   sublist (token ''PROJECT_NAME'') ''by {{PROJECT_NAME}}''"
  by code_simp

text \<open>
  Claim C1, amended: for a well behaved configuration and a text file without
  carriage returns that can be read and written, after \<open>replace_in_file\<close> the
  file holds the text in which no token of a configuration variable is left, and
  that text is the old one with each token replaced by the value of its variable
  and every character outside the tokens unchanged. (A carriage return in the
  file would be read as a line feed and written back as one.)
\<close>

theorem substitution_removes_tokens:
  assumes "well_behaved cfg" and "lookup w p = Some (File (Text s) True True)"
    and "CHR 0x0D \<notin> set s"
  shows "lookup (snd (replace_in_file p cfg w)) p
           = Some (File (Text (substitute cfg s)) True True)
         \<and> (\<forall>(n, v) \<in> set cfg. \<not> sublist (token n) (substitute cfg s))
         \<and> render (tokenise cfg s) = s
         \<and> substitute cfg s = expand (tokenise cfg s)"
  using assms no_token_left [OF assms(1)]
  by (auto simp: lookup_after_replace render_tokenise substitute_eq_expand)

theorem substitution_removes_tokens_witness:
  "well_behaved catalog_defaults \<and>
   lookup readme_world [''proj'', ''README.md'']
     = Some (File (Text ''# {{PROJECT_NAME}} ({{GITHUB_OWNER}})'') True True) \<and>
   CHR 0x0D \<notin> set ''# {{PROJECT_NAME}} ({{GITHUB_OWNER}})'' \<and>
   lookup (snd (replace_in_file [''proj'', ''README.md''] catalog_defaults readme_world))
      [''proj'', ''README.md'']
     = Some (File (Text ''# my-python-project (your-username)'') True True) \<and>
   \<not> sublist (token ''PROJECT_NAME'') ''# my-python-project (your-username)''"
proof -
  have wb: "well_behaved catalog_defaults" by code_simp
  have f: "lookup readme_world [''proj'', ''README.md'']
     = Some (File (Text ''# {{PROJECT_NAME}} ({{GITHUB_OWNER}})'') True True)" by code_simp
  have cr: "CHR 0x0D \<notin> set ''# {{PROJECT_NAME}} ({{GITHUB_OWNER}})''" by simp
  have s: "substitute catalog_defaults ''# {{PROJECT_NAME}} ({{GITHUB_OWNER}})''
           = ''# my-python-project (your-username)''" by code_simp
  have m: "(''PROJECT_NAME'', ''my-python-project'') \<in> set catalog_defaults" by code_simp
  from substitution_removes_tokens [OF wb f cr] s m wb f cr show ?thesis by auto
qed

text \<open>
  Claim C2, as the code has it. The claim says that a second pass with the same
  configuration changes nothing. With \<open>GITHUB_OWNER\<close> set to the text
  \<open>{{PROJECT_NAME}}\<close> the first pass leaves \<open>by {{PROJECT_NAME}}\<close> in the file
  and the second pass changes it to \<open>by demo\<close> and reports a modification.
\<close>

theorem second_pass_modifies:
  "lookup example_world [''proj'', ''README.md'']
     = Some (File (Text ''by {{GITHUB_OWNER}}'') True True) \<and>
   fst (replace_in_file [''proj'', ''README.md''] example_values
          (snd (replace_in_file [''proj'', ''README.md''] example_values example_world))) \<and>
   lookup (snd (replace_in_file [''proj'', ''README.md''] example_values
                  (snd (replace_in_file [''proj'', ''README.md''] example_values example_world))))
      [''proj'', ''README.md'']
     = Some (File (Text ''by demo'') True True)"
  by code_simp

text \<open>
  Claim C2, amended: for a well behaved configuration and a text file that can be
  read and written, a second run of \<open>replace_in_file\<close> with the same
  configuration returns \<open>False\<close> and leaves the world as the first run left it.
\<close>

theorem second_pass_is_noop:
  assumes "well_behaved cfg" and "lookup w p = Some (File (Text s) True True)"
  shows "replace_in_file p cfg (snd (replace_in_file p cfg w))
           = (False, snd (replace_in_file p cfg w))"
proof -
  let ?w1 = "snd (replace_in_file p cfg w)"
  have f: "lookup ?w1 p = Some (File (Text (substitute cfg s)) True True)"
    using assms(2) by (rule lookup_after_replace)
  have "\<forall>(n, v) \<in> set cfg. \<not> sublist (token n) (substitute cfg s)"
    using no_token_left [OF assms(1)] by blast
  then have "substitute cfg (substitute cfg s) = substitute cfg s"
    by (rule substitute_absent)
  then show ?thesis
    using replace_in_file_text [OF f, of cfg] by simp
qed

theorem second_pass_is_noop_witness:
  "well_behaved catalog_defaults \<and>
   lookup readme_world [''proj'', ''README.md'']
     = Some (File (Text ''# {{PROJECT_NAME}} ({{GITHUB_OWNER}})'') True True) \<and>
   fst (replace_in_file [''proj'', ''README.md''] catalog_defaults readme_world) \<and>
   replace_in_file [''proj'', ''README.md''] catalog_defaults
       (snd (replace_in_file [''proj'', ''README.md''] catalog_defaults readme_world))
     = (False, snd (replace_in_file [''proj'', ''README.md''] catalog_defaults readme_world))"
proof -
  have wb: "well_behaved catalog_defaults" by code_simp
  have f: "lookup readme_world [''proj'', ''README.md'']
     = Some (File (Text ''# {{PROJECT_NAME}} ({{GITHUB_OWNER}})'') True True)" by code_simp
  have m: "fst (replace_in_file [''proj'', ''README.md''] catalog_defaults readme_world)"
    by code_simp
  from second_pass_is_noop [OF wb f] wb f m show ?thesis by simp
qed

text \<open>
  Claim C3: \<open>replace_in_file\<close> writes the file at most once, and only when the
  substituted text differs from the text read; it returns \<open>True\<close> exactly when it
  wrote, and without a write the file table is unchanged. For a file whose text
  holds no token of a configuration variable it returns \<open>False\<close> and leaves the
  world as it was.
\<close>

theorem replace_in_file_writes:
  assumes "replace_in_file p cfg w = (b, w')"
  shows "(writes w' = writes w \<or> writes w' = writes w @ [p]) \<and>
         (b \<longleftrightarrow> writes w' \<noteq> writes w) \<and>
         (writes w' \<noteq> writes w \<longrightarrow> (\<exists>s. read_text w p = Inr s \<and> substitute cfg s \<noteq> s)) \<and>
         (writes w' = writes w \<longrightarrow> files w' = files w) \<and>
         (\<forall>s. read_text w p = Inr s \<and> (\<forall>(n, v) \<in> set cfg. \<not> sublist (token n) s)
               \<longrightarrow> \<not> b \<and> w' = w)"
proof -
  have zero: "\<not> b \<and> w' = w"
    if "read_text w p = Inr s" "\<forall>(n, v) \<in> set cfg. \<not> sublist (token n) s" for s
    using that assms substitute_absent [of cfg s] by (simp add: replace_in_file_def)
  have rest: "(writes w' = writes w \<or> writes w' = writes w @ [p]) \<and>
         (b \<longleftrightarrow> writes w' \<noteq> writes w) \<and>
         (writes w' \<noteq> writes w \<longrightarrow> (\<exists>s. read_text w p = Inr s \<and> substitute cfg s \<noteq> s)) \<and>
         (writes w' = writes w \<longrightarrow> files w' = files w)"
    using assms
    by (auto simp: replace_in_file_def write_text_def Let_def
             split: sum.splits option.splits node.splits if_splits)
  from zero rest show ?thesis by blast
qed

theorem replace_in_file_writes_witness:
  "read_text plain_world [''proj'', ''README.md''] = Inr ''nothing to fill in'' \<and>
   replace_in_file [''proj'', ''README.md''] catalog_defaults plain_world = (False, plain_world)"
proof -
  let ?r = "replace_in_file [''proj'', ''README.md''] catalog_defaults plain_world"
  have run: "?r = (fst ?r, snd ?r)" by simp
  have r: "read_text plain_world [''proj'', ''README.md''] = Inr ''nothing to fill in''"
    by code_simp
  have nt: "\<forall>(n, v) \<in> set catalog_defaults. \<not> sublist (token n) ''nothing to fill in''"
    by code_simp
  from replace_in_file_writes [OF run] r nt have "\<not> fst ?r \<and> snd ?r = plain_world"
    by blast
  with r show ?thesis by (simp add: prod_eq_iff)
qed

text \<open>
  Claim C7: when the answer to each prompt of the catalog is the empty line,
  \<open>collect_variables\<close> returns the catalog's default values, one entry for each
  variable of the catalog, in the catalog's order, and has consumed exactly those
  answers.
\<close>

theorem empty_input_gives_defaults:
  assumes "stdin w = replicate (length TEMPLATE_VARS) [] @ rest"
  shows "(\<exists>w'. collect_variables w = Inr (catalog_defaults, w') \<and> stdin w' = rest
               \<and> files w' = files w)
         \<and> map fst catalog_defaults = map fst TEMPLATE_VARS
         \<and> distinct (map fst TEMPLATE_VARS)"
proof -
  have d: "distinct (map fst TEMPLATE_VARS)"
    by (simp add: TEMPLATE_VARS_def)
  have s: "strip [] = []" by (simp add: strip_def)
  let ?w = "py_print (''Press Enter to accept the default value shown in brackets.'' @ nl)
       (py_print (nl @ ''Please provide values for the following settings.'')
       (py_print (replicate 60 CHR ''='')
       (py_print ''Python Project Template Setup''
       (py_print (nl @ replicate 60 CHR ''='') w))))"
  have "\<exists>w'. collect_loop TEMPLATE_VARS [] ?w
              = Inr ([] @ map (\<lambda>(var_name, info). (var_name, default_value info)) TEMPLATE_VARS, w')
            \<and> stdin w' = rest \<and> files w' = files ?w \<and> writes w' = writes ?w"
  proof (rule collect_loop_blank [OF d])
    show "fst ` set [] \<inter> fst ` set TEMPLATE_VARS = {}" by simp
    show "stdin ?w = replicate (length TEMPLATE_VARS) [] @ rest"
      using assms by (simp add: py_print_def)
    show "length (replicate (length TEMPLATE_VARS) ([]::string)) = length TEMPLATE_VARS" by simp
    show "\<forall>l \<in> set (replicate (length TEMPLATE_VARS) []). strip l = []" using s by simp
  qed
  then have "\<exists>w'. collect_variables w = Inr (catalog_defaults, w') \<and> stdin w' = rest
               \<and> files w' = files w"
    by (auto simp: collect_variables_def catalog_defaults_def py_print_def)
  moreover have "map fst catalog_defaults = map fst TEMPLATE_VARS"
    by (simp add: catalog_defaults_def comp_def case_prod_unfold)
  ultimately show ?thesis using d by blast
qed

theorem empty_input_gives_defaults_witness:
  "stdin blank_answers = replicate (length TEMPLATE_VARS) [] @ [''n''] \<and>
   (\<exists>w'. collect_variables blank_answers = Inr (catalog_defaults, w') \<and> stdin w' = [''n''])"
proof -
  have h: "stdin blank_answers = replicate (length TEMPLATE_VARS) [] @ [''n'']"
    by code_simp
  from empty_input_gives_defaults [OF h] h show ?thesis by blast
qed

text \<open>
  Claim C8: when a listed path does not exist, the loop tries once more, under the
  resolved source directory for a path below \<^verbatim>\<open>src/\<close> and under the resolved test
  directory for a path below \<^verbatim>\<open>tests/\<close>. When that path exists, the file is
  processed there and counted if it was modified; when it does not, nothing is
  printed, nothing is written and the counter stays.
\<close>

theorem fallback_to_resolved_directory:
  assumes "dict_get values ''SOURCE_DIR'' = Inr source_dir"
    and "dict_get values ''TEST_DIR'' = Inr test_dir"
    and "\<not> path_exists w (joinpath project_root file_rel_path)"
  shows "process_file project_root values file_rel_path (k, w) =
           (if path_exists w (joinpath project_root (fallback_path source_dir test_dir file_rel_path))
            then (case replace_in_file
                         (joinpath project_root (fallback_path source_dir test_dir file_rel_path))
                         values w of
                    (True, w') \<Rightarrow>
                      Inr (k + 1,
                           py_print (''  Updated: '' @ fallback_path source_dir test_dir file_rel_path) w')
                  | (False, w') \<Rightarrow> Inr (k, w'))
            else Inr (k, w))"
proof -
  let ?new_path = "if prefix ''src/'' file_rel_path then
           (case dict_get values ''SOURCE_DIR'' of
              Inl e \<Rightarrow> Inl e
            | Inr v \<Rightarrow> Inr (str_replace_n 1 ''src/'' (v @ ''/'') file_rel_path))
         else if prefix ''tests/'' file_rel_path then
           (case dict_get values ''TEST_DIR'' of
              Inl e \<Rightarrow> Inl e
            | Inr v \<Rightarrow> Inr (str_replace_n 1 ''tests/'' (v @ ''/'') file_rel_path))
         else Inr file_rel_path"
  have "?new_path = Inr (fallback_path source_dir test_dir file_rel_path)"
  proof (cases "prefix ''src/'' file_rel_path")
    case True
    then obtain r where r: "file_rel_path = ''src/'' @ r" by (auto simp: prefix_def)
    have "str_replace_n 1 ''src/'' (source_dir @ ''/'') (''src/'' @ r) = (source_dir @ ''/'') @ r"
      by (rule str_replace_n_first) simp
    moreover have "drop 4 file_rel_path = r" using r by simp
    ultimately show ?thesis
      using True assms(1) r by (simp add: fallback_path_def)
  next
    case False
    show ?thesis
    proof (cases "prefix ''tests/'' file_rel_path")
      case True
      then obtain r where r: "file_rel_path = ''tests/'' @ r" by (auto simp: prefix_def)
      have "str_replace_n 1 ''tests/'' (test_dir @ ''/'') (''tests/'' @ r) = (test_dir @ ''/'') @ r"
        by (rule str_replace_n_first) simp
      moreover have "drop 6 file_rel_path = r" using r by simp
      ultimately show ?thesis
        using True False assms(2) r by (simp add: fallback_path_def)
    next
      case no: False
      with False show ?thesis by (simp add: fallback_path_def)
    qed
  qed
  then show ?thesis
    using assms(3) by (simp add: process_file_def)
qed

theorem fallback_to_resolved_directory_witness:
  "dict_get relocated_values ''SOURCE_DIR'' = Inr ''app'' \<and>
   dict_get relocated_values ''TEST_DIR'' = Inr ''tests'' \<and>
   \<not> path_exists relocated_world (joinpath [''proj''] ''src/main.py'') \<and>
   \<not> path_exists relocated_world (joinpath [''proj''] ''tests/conftest.py'') \<and>
   fallback_path ''app'' ''tests'' ''src/main.py'' = ''app/main.py'' \<and>
   path_exists relocated_world (joinpath [''proj''] ''app/main.py'') \<and>
   fst (projr (process_file [''proj''] relocated_values ''src/main.py'' (0, relocated_world))) = 1 \<and>
   process_file [''proj''] relocated_values ''tests/conftest.py'' (0, relocated_world)
     = Inr (0, relocated_world)"
proof -
  have s: "dict_get relocated_values ''SOURCE_DIR'' = Inr ''app''" by code_simp
  have t: "dict_get relocated_values ''TEST_DIR'' = Inr ''tests''" by code_simp
  have n1: "\<not> path_exists relocated_world (joinpath [''proj''] ''src/main.py'')" by code_simp
  have n2: "\<not> path_exists relocated_world (joinpath [''proj''] ''tests/conftest.py'')" by code_simp
  have f1: "fallback_path ''app'' ''tests'' ''src/main.py'' = ''app/main.py''" by code_simp
  have f2: "fallback_path ''app'' ''tests'' ''tests/conftest.py'' = ''tests/conftest.py''" by code_simp
  have e1: "path_exists relocated_world (joinpath [''proj''] ''app/main.py'')" by code_simp
  have r1: "fst (replace_in_file (joinpath [''proj''] ''app/main.py'') relocated_values relocated_world)"
    by code_simp
  have a: "fst (projr (process_file [''proj''] relocated_values ''src/main.py'' (0, relocated_world))) = 1"
    using fallback_to_resolved_directory [OF s t n1, of 0] f1 e1 r1
    by (simp split: prod.splits)
  have b: "process_file [''proj''] relocated_values ''tests/conftest.py'' (0, relocated_world)
     = Inr (0, relocated_world)"
    using fallback_to_resolved_directory [OF s t n2, of 0] f2 n2 by simp
  from s t n1 n2 f1 e1 a b show ?thesis by simp
qed

text \<open>
  Claim C9: whenever \<open>main\<close> returns, it returns 0, whatever the files, the answers
  and the external tools were. One such run is given below: a target file does
  not decode, the new name of the source directory is taken, \<^verbatim>\<open>git init\<close> exits
  with status 128 and \<^verbatim>\<open>pre-commit\<close> is not installed.
\<close>

theorem main_returns_zero:
  assumes "main env w = Inr (code, w')"
  shows "code = 0"
  using assms
  by (auto simp: main_def Let_def split: sum.splits prod.splits)

theorem main_returns_zero_witness:
  "(case main failing_env failing_world of
      Inl e \<Rightarrow> False
    | Inr (code, w') \<Rightarrow>
        Print_could_not_process [''proj'', ''pyproject.toml''] UnicodeDecodeError \<in> set (stdout w') \<and>
        Print ''  Warning: Cannot rename src to docs: target exists'' \<in> set (stdout w') \<and>
        Print ''  Warning: Could not initialize git repository'' \<in> set (stdout w') \<and>
        Print ''  Warning: Could not install pre-commit hooks'' \<in> set (stdout w') \<and>
        Print ''Setup complete!'' \<in> set (stdout w')) \<and>
   fst (projr (main failing_env failing_world)) = 0"
proof -
  let ?r = "main failing_env failing_world"
  have run: "case ?r of
      Inl e \<Rightarrow> False
    | Inr (code, w') \<Rightarrow>
        Print_could_not_process [''proj'', ''pyproject.toml''] UnicodeDecodeError \<in> set (stdout w') \<and>
        Print ''  Warning: Cannot rename src to docs: target exists'' \<in> set (stdout w') \<and>
        Print ''  Warning: Could not initialize git repository'' \<in> set (stdout w') \<and>
        Print ''  Warning: Could not install pre-commit hooks'' \<in> set (stdout w') \<and>
        Print ''Setup complete!'' \<in> set (stdout w')"
    by code_simp
  then have "?r = Inr (fst (projr ?r), snd (projr ?r))"
    by (cases ?r) auto
  then have "fst (projr ?r) = 0"
    by (rule main_returns_zero)
  with run show ?thesis by simp
qed

text \<open>
  Claim C5, as the code has it. The claim says that a warning is logged whenever
  a requested rename does not happen. When the source directory is missing,
  \<open>rename_directory\<close> returns without printing anything.
\<close>

theorem missing_source_is_silent:
  "''src'' \<noteq> ''app'' \<and>
   \<not> path_exists empty_project (joinpath [''proj''] ''src'') \<and>
   rename_directory [''proj''] ''src'' ''app'' empty_project = Inr (None, empty_project) \<and>
   stdout empty_project = []"
  by code_simp

text \<open>
  Claim C5, amended: for different names, when the old path and the new path both
  exist, \<open>rename_directory\<close> prints the warning, changes nothing else and returns
  no path; when the old path does not exist, it returns no path, changes nothing
  and prints nothing.
\<close>

theorem rename_refusals:
  assumes "old_name \<noteq> new_name"
  shows "(path_exists w (joinpath project_root old_name) \<and>
          path_exists w (joinpath project_root new_name) \<longrightarrow>
            rename_directory project_root old_name new_name w
              = Inr (None, w\<lparr>stdout := stdout w @
                     [Print (''  Warning: Cannot rename '' @ old_name @ '' to '' @ new_name
                               @ '': target exists'')]\<rparr>)) \<and>
         (\<not> path_exists w (joinpath project_root old_name) \<longrightarrow>
            rename_directory project_root old_name new_name w = Inr (None, w))"
  using assms by (simp add: rename_directory_def Let_def py_print_def)

theorem rename_refusals_witness:
  "''src'' \<noteq> ''docs'' \<and>
   path_exists two_directories (joinpath [''proj''] ''src'') \<and>
   path_exists two_directories (joinpath [''proj''] ''docs'') \<and>
   rename_directory [''proj''] ''src'' ''docs'' two_directories
     = Inr (None, two_directories\<lparr>stdout :=
              [Print ''  Warning: Cannot rename src to docs: target exists'']\<rparr>)"
proof -
  have d: "''src'' \<noteq> ''docs''" by simp
  have a: "path_exists two_directories (joinpath [''proj''] ''src'')" by code_simp
  have b: "path_exists two_directories (joinpath [''proj''] ''docs'')" by code_simp
  have o: "stdout two_directories = []" by code_simp
  from rename_refusals [OF d, of two_directories "[''proj'']"] a b o d show ?thesis by simp
qed


text \<open>
  Two more new names for which the move is refused: below a regular file no
  directory can be created, and a directory that has to be copied, because the
  parent of the new path does not exist yet, cannot be copied when one of its
  files cannot be read.
\<close>

lemma rename_refused_by_the_file_system:
  "rename_directory [''proj''] ''src'' ''README.md/app'' blocked_rename = Inl NotADirectoryError \<and>
   rename_directory [''proj''] ''src'' ''pkg/app'' blocked_rename = Inl ShutilError"
  by code_simp



text \<open>
  Claim C10: the test for hidden files looks at the last component of the path
  only. A text file below the project root whose own name does not start with a
  dot, in a directory whose name does, and which holds one of the patterns, is
  written back with the four replacements made.
\<close>

theorem file_in_hidden_directory_is_rewritten:
  assumes "old_name \<noteq> new_name" and "distinct (map fst (files w))"
    and "strict_prefix project_root p" and "\<exists>d \<in> set (butlast p). prefix ''.'' d"
    and "\<not> prefix ''.'' (name_of p)"
    and "lookup w p = Some (File (Text c) True True)"
    and "\<exists>(old_pattern, new_pattern) \<in> set (patterns old_name new_name). sublist old_pattern c"
  shows "\<exists>w'. update_file_references project_root old_name new_name w = Inr w'
           \<and> lookup w' p = Some (File (Text (rewrite_references old_name new_name c)) True True)
           \<and> p \<in> set (writes w')"
proof -
  have "p \<in> set (map fst (files w))"
    using assms(6) by (metis lookup_def map_of_eq_None_iff option.distinct(1) set_map)
  then have mem: "p \<in> set (rglob project_root w)"
    using assms(3) by (simp add: rglob_def)
  have dist: "distinct (rglob project_root w)"
    using assms(2) by (simp add: rglob_def)
  have m: "snd (apply_patterns (patterns old_name new_name) c False)"
    using assms(7) by (rule apply_patterns_modified)
  from update_loop_at [OF dist mem assms(6,5), of "patterns old_name new_name"] m
  show ?thesis
    using assms(1) by (simp add: update_file_references_def apply_patterns_rewrite)
qed

theorem file_in_hidden_directory_is_rewritten_witness:
  "''src'' \<noteq> ''app'' \<and>
   distinct (map fst (files workflow_world)) \<and>
   strict_prefix [''proj''] [''proj'', ''.github'', ''workflows'', ''ci.yml''] \<and>
   prefix ''.'' ''.github'' \<and>
   \<not> prefix ''.'' (name_of [''proj'', ''.github'', ''workflows'', ''ci.yml'']) \<and>
   lookup workflow_world [''proj'', ''.github'', ''workflows'', ''ci.yml'']
     = Some (File (Text ''run: pytest src/ --cov'') True True) \<and>
   sublist ''src/'' ''run: pytest src/ --cov'' \<and>
   (\<exists>w'. update_file_references [''proj''] ''src'' ''app'' workflow_world = Inr w' \<and>
          lookup w' [''proj'', ''.github'', ''workflows'', ''ci.yml'']
            = Some (File (Text ''run: pytest app/ --cov'') True True) \<and>
          [''proj'', ''.github'', ''workflows'', ''ci.yml''] \<in> set (writes w'))"
proof -
  let ?p = "[''proj'', ''.github'', ''workflows'', ''ci.yml'']"
  have d: "''src'' \<noteq> ''app''" by simp
  have di: "distinct (map fst (files workflow_world))" by code_simp
  have sp: "strict_prefix [''proj''] ?p" by (simp add: strict_prefix_def)
  have hd: "\<exists>d \<in> set (butlast ?p). prefix ''.'' d" by simp
  have hd': "prefix ''.'' ''.github''" by simp
  have nh: "\<not> prefix ''.'' (name_of ?p)" by (simp add: name_of_def)
  have l: "lookup workflow_world ?p = Some (File (Text ''run: pytest src/ --cov'') True True)"
    by code_simp
  have s: "sublist ''src/'' ''run: pytest src/ --cov''" by code_simp
  have pat: "\<exists>(old_pattern, new_pattern) \<in> set (patterns ''src'' ''app'').
               sublist old_pattern ''run: pytest src/ --cov''"
    using s by (simp add: patterns_def)
  have r: "rewrite_references ''src'' ''app'' ''run: pytest src/ --cov'' = ''run: pytest app/ --cov''"
    by code_simp
  from file_in_hidden_directory_is_rewritten [OF d di sp hd nh l pat] r
  have "\<exists>w'. update_file_references [''proj''] ''src'' ''app'' workflow_world = Inr w' \<and>
          lookup w' ?p = Some (File (Text ''run: pytest app/ --cov'') True True) \<and>
          ?p \<in> set (writes w')"
    by simp
  with d di sp hd' nh l s show ?thesis by blast
qed

text \<open>
  Claim C6: for different names, \<open>update_file_references\<close> goes through every
  path below the project root. A text file whose name does not start with a dot
  and that can be read and written ends with the four pattern forms replaced, one
  after the other in the order of the table, each on the text the one before has
  left (so the pass for \<^verbatim>\<open>old/\<close> also rewrites the text inside a literal
  \<^verbatim>\<open>^old/\<close>, whose caret stays). It is written back exactly when one of the
  patterns occurs in it. A file whose name starts with a dot keeps its content
  and is not written, and nothing is written but files in which a pattern was
  found.
\<close>

theorem reference_fixer_rewrites_files:
  assumes "old_name \<noteq> new_name" and "distinct (map fst (files w))"
  shows "\<exists>w' ws. update_file_references project_root old_name new_name w = Inr w'
           \<and> writes w' = writes w @ ws
           \<and> (\<forall>p c. strict_prefix project_root p \<and> \<not> prefix ''.'' (name_of p)
                    \<and> lookup w p = Some (File (Text c) True True) \<longrightarrow>
                 lookup w' p = Some (File (Text (rewrite_references old_name new_name c)) True True)
                 \<and> (p \<in> set ws \<longleftrightarrow>
                     (\<exists>(old_pattern, new_pattern) \<in> set (patterns old_name new_name).
                         sublist old_pattern c)))
           \<and> (\<forall>p. prefix ''.'' (name_of p) \<longrightarrow> lookup w' p = lookup w p \<and> p \<notin> set ws)
           \<and> (\<forall>p \<in> set ws. \<exists>c. strict_prefix project_root p \<and> \<not> prefix ''.'' (name_of p)
                    \<and> lookup w p = Some (File (Text c) True True)
                    \<and> (\<exists>(old_pattern, new_pattern) \<in> set (patterns old_name new_name).
                         sublist old_pattern c))"
proof -
  let ?ps = "patterns old_name new_name"
  let ?paths = "rglob project_root w"
  have dist: "distinct ?paths" using assms(2) by (simp add: rglob_def)
  have mem: "p \<in> set ?paths" if "strict_prefix project_root p" "lookup w p = Some n" for p n
  proof -
    have "p \<in> set (map fst (files w))"
      using that(2) by (metis lookup_def map_of_eq_None_iff option.distinct(1) set_map)
    then show ?thesis using that(1) by (simp add: rglob_def)
  qed
  have below: "strict_prefix project_root p" if "p \<in> set ?paths" for p
    using that by (simp add: rglob_def)
  have found: "snd (apply_patterns ?ps c False) \<longleftrightarrow>
               (\<exists>(old_pattern, new_pattern) \<in> set ?ps. sublist old_pattern c)" for c
    using apply_patterns_found apply_patterns_modified by blast
  obtain w' ws where t: "update_loop ?ps ?paths w = Inr w'" "writes w' = writes w @ ws"
    "set ws \<subseteq> set ?paths"
    "\<forall>p. p \<notin> set ?paths \<longrightarrow> lookup w' p = lookup w p"
    "\<forall>p \<in> set ?paths. \<forall>c.
              lookup w p = Some (File (Text c) True True) \<and> \<not> prefix ''.'' (name_of p) \<longrightarrow>
                lookup w' p = Some (File (Text (fst (apply_patterns ?ps c False))) True True)
                \<and> (p \<in> set ws \<longleftrightarrow> snd (apply_patterns ?ps c False))"
    "\<forall>p \<in> set ?paths.
              \<not> (\<exists>c. lookup w p = Some (File (Text c) True True) \<and> \<not> prefix ''.'' (name_of p)) \<longrightarrow>
                lookup w' p = lookup w p \<and> p \<notin> set ws"
    using update_loop_table [OF dist, of ?ps w] by blast
  have run: "update_file_references project_root old_name new_name w = Inr w'"
    using assms(1) t(1) by (simp add: update_file_references_def)
  have a: "\<forall>p c. strict_prefix project_root p \<and> \<not> prefix ''.'' (name_of p)
                    \<and> lookup w p = Some (File (Text c) True True) \<longrightarrow>
                 lookup w' p = Some (File (Text (rewrite_references old_name new_name c)) True True)
                 \<and> (p \<in> set ws \<longleftrightarrow> (\<exists>(old_pattern, new_pattern) \<in> set ?ps. sublist old_pattern c))"
  proof (intro allI impI)
    fix p c
    assume h: "strict_prefix project_root p \<and> \<not> prefix ''.'' (name_of p)
                    \<and> lookup w p = Some (File (Text c) True True)"
    then have "p \<in> set ?paths" using mem by blast
    with t(5) h show "lookup w' p = Some (File (Text (rewrite_references old_name new_name c)) True True)
                 \<and> (p \<in> set ws \<longleftrightarrow> (\<exists>(old_pattern, new_pattern) \<in> set ?ps. sublist old_pattern c))"
      using found [of c] by (simp add: apply_patterns_rewrite)
  qed
  have b: "\<forall>p. prefix ''.'' (name_of p) \<longrightarrow> lookup w' p = lookup w p \<and> p \<notin> set ws"
  proof (intro allI impI)
    fix p assume h: "prefix ''.'' (name_of p)"
    show "lookup w' p = lookup w p \<and> p \<notin> set ws"
    proof (cases "p \<in> set ?paths")
      case True
      with t(6) h show ?thesis by blast
    next
      case False
      with t(3,4) show ?thesis by blast
    qed
  qed
  have c: "\<forall>p \<in> set ws. \<exists>c. strict_prefix project_root p \<and> \<not> prefix ''.'' (name_of p)
                    \<and> lookup w p = Some (File (Text c) True True)
                    \<and> (\<exists>(old_pattern, new_pattern) \<in> set ?ps. sublist old_pattern c)"
  proof
    fix p assume p: "p \<in> set ws"
    then have pp: "p \<in> set ?paths" using t(3) by blast
    with t(6) p obtain c where c: "lookup w p = Some (File (Text c) True True)"
      "\<not> prefix ''.'' (name_of p)" by blast
    with t(5) pp p have "snd (apply_patterns ?ps c False)" by blast
    with c below [OF pp] found [of c]
    show "\<exists>c. strict_prefix project_root p \<and> \<not> prefix ''.'' (name_of p)
                    \<and> lookup w p = Some (File (Text c) True True)
                    \<and> (\<exists>(old_pattern, new_pattern) \<in> set ?ps. sublist old_pattern c)"
      by blast
  qed
  from run t(2) a b c show ?thesis by blast
qed

theorem reference_fixer_rewrites_files_witness:
  "''src'' \<noteq> ''app'' \<and> distinct (map fst (files fixer_world)) \<and>
   (\<exists>w'. update_file_references [''proj''] ''src'' ''app'' fixer_world = Inr w' \<and>
      lookup w' [''proj'', ''MANIFEST.in''] = Some (File (Text ''^app/main.py'') True True) \<and>
      lookup w' [''proj'', ''LICENSE''] = Some (File (Text ''MIT'') True True) \<and>
      lookup w' [''proj'', ''.flake8''] = Some (File (Text ''exclude = src/legacy'') True True) \<and>
      writes w' = [[''proj'', ''MANIFEST.in'']])"
proof -
  have d: "''src'' \<noteq> ''app''" by simp
  have di: "distinct (map fst (files fixer_world))" by code_simp
  obtain w' ws where r: "update_file_references [''proj''] ''src'' ''app'' fixer_world = Inr w'"
    and wr: "writes w' = writes fixer_world @ ws"
    and a: "\<forall>p c. strict_prefix [''proj''] p \<and> \<not> prefix ''.'' (name_of p)
                    \<and> lookup fixer_world p = Some (File (Text c) True True) \<longrightarrow>
                 lookup w' p = Some (File (Text (rewrite_references ''src'' ''app'' c)) True True)"
    and b: "\<forall>p. prefix ''.'' (name_of p) \<longrightarrow> lookup w' p = lookup fixer_world p"
    using reference_fixer_rewrites_files [OF d di, of "[''proj'']"] by blast
  have m: "lookup fixer_world [''proj'', ''MANIFEST.in''] = Some (File (Text ''^src/main.py'') True True)"
    by code_simp
  have l: "lookup fixer_world [''proj'', ''LICENSE''] = Some (File (Text ''MIT'') True True)"
    by code_simp
  have f: "lookup fixer_world [''proj'', ''.flake8'']
           = Some (File (Text ''exclude = src/legacy'') True True)"
    by code_simp
  have rm: "rewrite_references ''src'' ''app'' ''^src/main.py'' = ''^app/main.py''" by code_simp
  have rl: "rewrite_references ''src'' ''app'' ''MIT'' = ''MIT''" by code_simp
  have 1: "lookup w' [''proj'', ''MANIFEST.in''] = Some (File (Text ''^app/main.py'') True True)"
    using a [rule_format, of "[''proj'', ''MANIFEST.in'']" "''^src/main.py''"] m rm
    by (simp add: name_of_def strict_prefix_def)
  have 2: "lookup w' [''proj'', ''LICENSE''] = Some (File (Text ''MIT'') True True)"
    using a [rule_format, of "[''proj'', ''LICENSE'']" "''MIT''"] l rl
    by (simp add: name_of_def strict_prefix_def)
  have 3: "lookup w' [''proj'', ''.flake8''] = Some (File (Text ''exclude = src/legacy'') True True)"
    using b [rule_format, of "[''proj'', ''.flake8'']"] f by (simp add: name_of_def)
  have "writes (projr (update_file_references [''proj''] ''src'' ''app'' fixer_world))
          = [[''proj'', ''MANIFEST.in'']]"
    by code_simp
  then have 4: "writes w' = [[''proj'', ''MANIFEST.in'']]"
    using r by simp
  from d di r 1 2 3 4 show ?thesis by blast
qed

end
